theory Spec2Isabelle
  imports Main "HOL-Library.Word" "HOL-Library.Signed_Division"
begin

unbundle bit_operations_syntax

text \<open>
  A shallow embedding of the CVERE Go backend: the virtual machine (simulator/vm.go), the
  two-pass assembler (simulator/assembler.go) and the disassembler
  (simulator/disassembler.go). Go's fixed-width unsigned integers are words of the same
  width, so \<open>+\<close>, \<open>-\<close> and the shifts wrap as they do in Go.
\<close>

type_synonym u8 = "8 word"
type_synonym u16 = "16 word"
type_synonym u32 = "32 word"

section \<open>Go run time and standard library\<close>

text \<open>
  The two ways a Go function of the backend fails: an \<open>error\<close> value built by
  \<open>fmt.Errorf\<close> (the message is kept), and the run-time panic of an index expression
  whose index is not below the length (index and length are kept).
\<close>

datatype go_error =
    Errorf string
  | PanicIndexOutOfRange nat nat

text \<open>Sequencing: the first failure ends the computation.\<close>

definition and_then :: "go_error + 'a \<Rightarrow> ('a \<Rightarrow> go_error + 'b) \<Rightarrow> go_error + 'b" where
  "and_then r f = (case r of Inl e \<Rightarrow> Inl e | Inr x \<Rightarrow> f x)"

text \<open>The index expression \<open>xs[i]\<close> on a slice.\<close>

definition index_op :: "'a list \<Rightarrow> nat \<Rightarrow> go_error + 'a" where
  "index_op xs i =
     (if i < length xs then Inr (xs ! i) else Inl (PanicIndexOutOfRange i (length xs)))"

subsection \<open>Package strings\<close>

text \<open>
  Strings are byte strings. Source text is taken to be ASCII: on ASCII text the white
  space of \<open>unicode.IsSpace\<close> is the six characters below and \<open>strings.ToUpper\<close>
  changes the letters \<open>a\<close> to \<open>z\<close> only. The separators the assembler passes to
  \<open>Index\<close>, \<open>Contains\<close>, \<open>Split\<close> and \<open>SplitN\<close> are single characters.
\<close>

definition isSpace :: "char \<Rightarrow> bool" where
  "isSpace c =
     (c = CHR 0x09 \<or> c = CHR 0x0A \<or> c = CHR 0x0B \<or> c = CHR 0x0C \<or> c = CHR 0x0D \<or>
      c = CHR '' '')"

definition TrimSpace :: "string \<Rightarrow> string" where
  "TrimSpace s = rev (dropWhile isSpace (rev (dropWhile isSpace s)))"

text \<open>\<open>strings.Fields\<close>: the maximal runs of characters that are not white space.\<close>

fun Fields_loop :: "string \<Rightarrow> string \<Rightarrow> string list" where
  "Fields_loop cur [] = (if cur = [] then [] else [cur])"
| "Fields_loop cur (c # cs) =
     (if isSpace c then (if cur = [] then Fields_loop [] cs else cur # Fields_loop [] cs)
      else Fields_loop (cur @ [c]) cs)"

definition Fields :: "string \<Rightarrow> string list" where
  "Fields s = Fields_loop [] s"

text \<open>\<open>strings.Index\<close>: the position of the first occurrence, \<open>None\<close> for Go's \<open>-1\<close>.\<close>

fun Index :: "string \<Rightarrow> char \<Rightarrow> nat option" where
  "Index [] sep = None"
| "Index (c # cs) sep = (if c = sep then Some 0 else map_option Suc (Index cs sep))"

definition Contains :: "string \<Rightarrow> char \<Rightarrow> bool" where
  "Contains s sep = (Index s sep \<noteq> None)"

text \<open>\<open>strings.Split\<close>: the pieces between the separators; one piece when there is none.\<close>

fun Split_loop :: "string \<Rightarrow> string \<Rightarrow> char \<Rightarrow> string list" where
  "Split_loop cur [] sep = [cur]"
| "Split_loop cur (c # cs) sep =
     (if c = sep then cur # Split_loop [] cs sep else Split_loop (cur @ [c]) cs sep)"

definition Split :: "string \<Rightarrow> char \<Rightarrow> string list" where
  "Split s sep = Split_loop [] s sep"

text \<open>\<open>strings.SplitN(s, sep, 2)\<close>: split at the first separator only.\<close>

definition SplitN2 :: "string \<Rightarrow> char \<Rightarrow> string list" where
  "SplitN2 s sep =
     (case Index s sep of None \<Rightarrow> [s] | Some i \<Rightarrow> [take i s, drop (Suc i) s])"

text \<open>A lower-case letter loses bit 5 of its code (the code decreases by 32).\<close>

definition upper_char :: "char \<Rightarrow> char" where
  "upper_char c =
     (if (97::nat) \<le> of_char c \<and> (of_char c :: nat) \<le> 122
      then (case c of Char b0 b1 b2 b3 b4 b5 b6 b7 \<Rightarrow> Char b0 b1 b2 b3 b4 False b6 b7)
      else c)"

definition ToUpper :: "string \<Rightarrow> string" where
  "ToUpper s = map upper_char s"

definition HasPrefix :: "string \<Rightarrow> string \<Rightarrow> bool" where
  "HasPrefix s p = (take (length p) s = p)"

subsection \<open>Package strconv\<close>

text \<open>
  \<open>strconv.ParseUint\<close> and \<open>strconv.ParseInt\<close> for an explicit base (2, 10 or 16
  here) and bit size. The value is returned together with the error: the assembler
  discards the error and uses the value, which is 0 after a syntax error and the nearest
  representable value after a range error. The scan stops at the first failure, so a
  range error hides a later syntax error.
\<close>

datatype num_error = ErrSyntax | ErrRange

text \<open>A digit \<open>0\<close> to \<open>9\<close>, or a letter of either case (\<open>c | 0x20\<close> is its lower case).\<close>

definition digit_value :: "char \<Rightarrow> nat option" where
  "digit_value c =
     (let b = (of_char c :: nat); l = (of_char c OR 0x20 :: nat) in
      if 48 \<le> b \<and> b \<le> 57 then Some (b - 48)
      else if 97 \<le> l \<and> l \<le> 122 then Some (l - 97 + 10)
      else None)"

fun ParseUint_loop :: "nat \<Rightarrow> nat \<Rightarrow> nat \<Rightarrow> string \<Rightarrow> nat \<times> num_error option" where
  "ParseUint_loop base maxVal n [] = (n, None)"
| "ParseUint_loop base maxVal n (c # cs) =
     (case digit_value c of
        None \<Rightarrow> (0, Some ErrSyntax)
      | Some d \<Rightarrow>
          if d \<ge> base then (0, Some ErrSyntax)
          else if n \<ge> (2 ^ 64 - 1) div base + 1 then (maxVal, Some ErrRange)
          else
            let n0 = n * base; n1 = (n0 + d) mod 2 ^ 64 in
            if n1 < n0 \<or> n1 > maxVal then (maxVal, Some ErrRange)
            else ParseUint_loop base maxVal n1 cs)"

definition ParseUint :: "string \<Rightarrow> nat \<Rightarrow> nat \<Rightarrow> nat \<times> num_error option" where
  "ParseUint s base bitSize =
     (if s = [] then (0, Some ErrSyntax) else ParseUint_loop base (2 ^ bitSize - 1) 0 s)"

definition ParseInt :: "string \<Rightarrow> nat \<Rightarrow> nat \<Rightarrow> int \<times> num_error option" where
  "ParseInt s0 base bitSize =
     (if s0 = [] then (0, Some ErrSyntax)
      else
        let neg = (hd s0 = CHR ''-'');
            s = (if hd s0 = CHR ''+'' \<or> hd s0 = CHR ''-'' then tl s0 else s0);
            (un, err) = ParseUint s base bitSize;
            cutoff = (2::nat) ^ (bitSize - 1)
        in if err = Some ErrSyntax then (0, err)
           else if \<not> neg \<and> un \<ge> cutoff then (int cutoff - 1, Some ErrRange)
           else if neg \<and> un > cutoff then (- int cutoff, Some ErrRange)
           else (if neg then - int un else int un, None))"

text \<open>\<open>strconv.Atoi(s)\<close> is \<open>ParseInt(s, 10, 0)\<close>, and bit size 0 is that of \<open>int\<close>.\<close>

definition Atoi :: "string \<Rightarrow> int \<times> num_error option" where
  "Atoi s = ParseInt s 10 64"

subsection \<open>Package fmt\<close>

text \<open>
  The verbs the backend uses: \<open>%X\<close> (upper-case hexadecimal, no leading zeros),
  \<open>%02X\<close> and \<open>%03X\<close> (padded with zeros to the width) on unsigned values, and
  \<open>%d\<close> on a signed value.
\<close>

definition digit_char :: "nat \<Rightarrow> char" where
  "digit_char d = ''0123456789ABCDEF'' ! d"

function fmt_base :: "nat \<Rightarrow> nat \<Rightarrow> string" where
  "fmt_base b n =
     (if n < b \<or> b < 2 then [digit_char n] else fmt_base b (n div b) @ [digit_char (n mod b)])"
  by pat_completeness auto
termination
  by (relation "measure (\<lambda>(b, n). n)") auto

declare fmt_base.simps [simp del]

definition pad0 :: "nat \<Rightarrow> string \<Rightarrow> string" where
  "pad0 width s = replicate (width - length s) CHR ''0'' @ s"

definition fmt_X :: "u16 \<Rightarrow> string" where
  "fmt_X v = fmt_base 16 (unat v)"

definition fmt_02X :: "u16 \<Rightarrow> string" where
  "fmt_02X v = pad0 2 (fmt_base 16 (unat v))"

definition fmt_03X :: "u16 \<Rightarrow> string" where
  "fmt_03X v = pad0 3 (fmt_base 16 (unat v))"

definition fmt_d :: "int \<Rightarrow> string" where
  "fmt_d i = (if i < 0 then ''-'' @ fmt_base 10 (nat (- i)) else fmt_base 10 (nat i))"

section \<open>The executor (simulator/vm.go)\<close>

text \<open>
  The two arrays of the \<open>VM\<close> struct, \<open>Registers [16]uint16\<close> and
  \<open>Memory [32768]uint16\<close>, are functions from the index: every index the code uses
  is either masked to four bits or guarded by a comparison with the array length, and the
  guards are part of the model. \<open>CycleCount\<close> is a Go \<open>int\<close>, 64 bits wide on the
  platforms the server is built for.
\<close>

record VM =
  Registers :: "nat \<Rightarrow> u16"
  PC :: u16
  SP :: u16
  LR :: u16
  SR :: u16
  Memory :: "nat \<Rightarrow> u16"
  Halted :: bool
  CycleCount :: "64 word"

text \<open>\<open>len(vm.Memory)\<close>, and its conversion \<open>uint16(len(vm.Memory))\<close>.\<close>

definition MemoryLen :: nat where
  "MemoryLen = 32768"

definition MemoryLen16 :: u16 where
  "MemoryLen16 = word_of_nat MemoryLen"

text \<open>\<open>NewVM\<close>: every field not named in the composite literal has Go's zero value.\<close>

definition NewVM :: VM where
  "NewVM = \<lparr>Registers = (\<lambda>_. 0), PC = 0, SP = 0xFFFE, LR = 0, SR = 0,
            Memory = (\<lambda>_. 0), Halted = False, CycleCount = 0\<rparr>"

text \<open>
  \<open>LoadProgram\<close>: the loop over \<open>program\<close>, with the loop index \<open>i\<close> as an
  argument. The index expression \<open>startAddr/2+uint16(i)\<close> is computed in 16 bits; an
  index past the end of \<open>Memory\<close> is Go's run-time panic.
\<close>

fun LoadProgram_loop :: "nat \<Rightarrow> u16 list \<Rightarrow> u16 \<Rightarrow> VM \<Rightarrow> go_error + VM" where
  "LoadProgram_loop i [] startAddr vm = Inr vm"
| "LoadProgram_loop i (instruction # program) startAddr vm =
     (let idx = unat (startAddr div 2 + word_of_nat i) in
      if idx < MemoryLen
      then LoadProgram_loop (Suc i) program startAddr
             (vm\<lparr>Memory := (Memory vm)(idx := instruction)\<rparr>)
      else Inl (PanicIndexOutOfRange idx MemoryLen))"

definition LoadProgram :: "u16 list \<Rightarrow> u16 \<Rightarrow> VM \<Rightarrow> go_error + VM" where
  "LoadProgram program startAddr vm = LoadProgram_loop 0 program startAddr vm"

text \<open>\<open>Fetch\<close> returns the instruction word and the machine with the advanced \<open>PC\<close>.\<close>

definition Fetch :: "VM \<Rightarrow> u16 \<times> VM" where
  "Fetch vm =
     (if PC vm div 2 \<ge> MemoryLen16 then (0xFFFF, vm)
      else (Memory vm (unat (PC vm div 2)), vm\<lparr>PC := PC vm + 2\<rparr>))"

definition UpdateFlags :: "u16 \<Rightarrow> VM \<Rightarrow> VM" where
  "UpdateFlags result vm =
     (let vm1 = vm\<lparr>SR := SR vm AND 0xFFF0\<rparr>;
          vm2 = (if result = 0 then vm1\<lparr>SR := SR vm1 OR push_bit 0 1\<rparr> else vm1);
          vm3 = (if result AND 0x8000 \<noteq> 0 then vm2\<lparr>SR := SR vm2 OR push_bit 1 1\<rparr> else vm2)
      in vm3)"

definition UpdateFlagsWithCarry :: "u32 \<Rightarrow> VM \<Rightarrow> VM" where
  "UpdateFlagsWithCarry result vm =
     (let vm1 = UpdateFlags (ucast result) vm
      in if result > 0xFFFF then vm1\<lparr>SR := SR vm1 OR push_bit 2 1\<rparr> else vm1)"

text \<open>
  The two statements \<open>vm.Registers[rd] = v; vm.Registers[0] = 0\<close> that every
  register-writing case of \<open>Step\<close> performs, in this order.
\<close>

definition write_reg :: "nat \<Rightarrow> u16 \<Rightarrow> VM \<Rightarrow> VM" where
  "write_reg rd v vm = vm\<lparr>Registers := ((Registers vm)(rd := v))(0 := 0)\<rparr>"

text \<open>
  The sign extension of the branch cases: \<open>int16(int8(imm8))\<close> when bit 7 is set,
  \<open>int16(imm8)\<close> otherwise.
\<close>

definition signedOffset :: "u8 \<Rightarrow> 16 word" where
  "signedOffset imm8 = (if imm8 AND 0x80 \<noteq> 0 then scast imm8 else ucast imm8)"

text \<open>\<open>uint16(int32(vm.PC) + int32(signedOffset)*2)\<close>.\<close>

definition branch_target :: "u16 \<Rightarrow> 16 word \<Rightarrow> u16" where
  "branch_target pc off = ucast ((ucast pc :: u32) + (scast off :: u32) * 2)"

text \<open>The effective word index of \<open>LOAD\<close> and \<open>STORE\<close>.\<close>

definition mem_address :: "u16 \<Rightarrow> u8 \<Rightarrow> u16" where
  "mem_address base offset = (base + ucast offset * 2) div 2"

text \<open>
  The field extraction at the head of \<open>Step\<close>. The register fields are converted
  to \<open>uint8\<close> by the source and used as array indices.
\<close>

definition decode_opcode :: "u16 \<Rightarrow> u16" where
  "decode_opcode instruction = drop_bit 12 instruction AND 0xF"

definition decode_rd :: "u16 \<Rightarrow> nat" where
  "decode_rd instruction = unat (ucast (drop_bit 8 instruction AND 0xF) :: u8)"

definition decode_rs :: "u16 \<Rightarrow> nat" where
  "decode_rs instruction = unat (ucast (drop_bit 4 instruction AND 0xF) :: u8)"

definition decode_rt :: "u16 \<Rightarrow> nat" where
  "decode_rt instruction = unat (ucast (instruction AND 0xF) :: u8)"

definition decode_imm8 :: "u16 \<Rightarrow> u8" where
  "decode_imm8 instruction = ucast (instruction AND 0xFF)"

definition decode_offset :: "u16 \<Rightarrow> u8" where
  "decode_offset instruction = ucast (instruction AND 0xF)"

definition decode_addr12 :: "u16 \<Rightarrow> u16" where
  "decode_addr12 instruction = instruction AND 0xFFF"

definition Step :: "VM \<Rightarrow> go_error + VM" where
  "Step vm0 =
     (if Halted vm0 then Inl (Errorf ''VM is halted'')
      else
        let (instruction, vm1) = Fetch vm0;
            vm = vm1\<lparr>CycleCount := CycleCount vm1 + 1\<rparr>;
            opcode = decode_opcode instruction;
            rd = decode_rd instruction;
            rs = decode_rs instruction;
            rt = decode_rt instruction;
            imm8 = decode_imm8 instruction;
            offset = decode_offset instruction;
            addr12 = decode_addr12 instruction
        in
        if opcode = 0x0 then Inr vm
        else if opcode = 0x1 then
          (let result = (ucast (Registers vm rs) :: u32) + ucast (Registers vm rt)
           in Inr (UpdateFlagsWithCarry result (write_reg rd (ucast result) vm)))
        else if opcode = 0x2 then
          (let result = (ucast (Registers vm rd) :: u32) + ucast imm8
           in Inr (UpdateFlagsWithCarry result (write_reg rd (ucast result) vm)))
        else if opcode = 0x3 then
          (let result = Registers vm rs - Registers vm rt
           in Inr (UpdateFlags result (write_reg rd result vm)))
        else if opcode = 0x4 then
          (let result = Registers vm rs AND Registers vm rt
           in Inr (UpdateFlags result (write_reg rd result vm)))
        else if opcode = 0x5 then
          (let result = Registers vm rs OR Registers vm rt
           in Inr (UpdateFlags result (write_reg rd result vm)))
        else if opcode = 0x6 then
          (let result = Registers vm rs XOR Registers vm rt
           in Inr (UpdateFlags result (write_reg rd result vm)))
        else if opcode = 0x7 then
          (let result = NOT (Registers vm rs)
           in Inr (UpdateFlags result (write_reg rd result vm)))
        else if opcode = 0x8 then
          (let shift = Registers vm rt AND 0xF;
               result = push_bit (unat shift) (Registers vm rs)
           in Inr (UpdateFlags result (write_reg rd result vm)))
        else if opcode = 0x9 then
          (let shift = Registers vm rt AND 0xF;
               result = drop_bit (unat shift) (Registers vm rs)
           in Inr (UpdateFlags result (write_reg rd result vm)))
        else if opcode = 0xA then
          (let address = mem_address (Registers vm rs) offset
           in if address < MemoryLen16
              then Inr (write_reg rd (Memory vm (unat address)) vm)
              else Inr vm)
        else if opcode = 0xB then
          (let address = mem_address (Registers vm rs) offset
           in if address < MemoryLen16
              then Inr (vm\<lparr>Memory := (Memory vm)(unat address := Registers vm rd)\<rparr>)
              else Inr vm)
        else if opcode = 0xC then
          (let value = (if imm8 AND 0x80 \<noteq> 0 then ucast imm8 OR 0xFF00 else ucast imm8)
           in Inr (write_reg rd value vm))
        else if opcode = 0xD then Inr (vm\<lparr>PC := addr12\<rparr>)
        else if opcode = 0xE then
          (if Registers vm rd = 0
           then Inr (vm\<lparr>PC := branch_target (PC vm) (signedOffset imm8)\<rparr>)
           else Inr vm)
        else if opcode = 0xF then
          (if instruction = 0xFFFF then Inr (vm\<lparr>Halted := True\<rparr>)
           else if Registers vm rd \<noteq> 0
           then Inr (vm\<lparr>PC := branch_target (PC vm) (signedOffset imm8)\<rparr>)
           else Inr vm)
        else Inl (Errorf (''unknown opcode: 0x'' @ fmt_X opcode)))"

definition Reset :: "VM \<Rightarrow> VM" where
  "Reset vm = vm\<lparr>Registers := (\<lambda>_. 0), PC := 0, SP := 0xFFFE, LR := 0, SR := 0,
                  Halted := False, CycleCount := 0\<rparr>"

text \<open>\<open>GetState\<close>: the snapshot, the machine without its memory.\<close>

record VMState =
  s_Registers :: "nat \<Rightarrow> u16"
  s_PC :: u16
  s_SP :: u16
  s_LR :: u16
  s_SR :: u16
  s_CycleCount :: "64 word"
  s_Halted :: bool

definition GetState :: "VM \<Rightarrow> VMState" where
  "GetState vm = \<lparr>s_Registers = Registers vm, s_PC = PC vm, s_SP = SP vm, s_LR = LR vm,
                  s_SR = SR vm, s_CycleCount = CycleCount vm, s_Halted = Halted vm\<rparr>"

text \<open>
  The loop of \<open>simulateHandler\<close> in main.go, the only caller of the executor: a fresh
  machine, the program loaded at address 0, at most \<open>maxCycles\<close> steps (1000 when the
  request gives 0, none when it is negative), a snapshot appended after every step that
  returns no error.
\<close>

fun simulate_loop :: "nat \<Rightarrow> VM \<Rightarrow> VMState list \<Rightarrow> VM \<times> VMState list" where
  "simulate_loop 0 vm history = (vm, history)"
| "simulate_loop (Suc n) vm history =
     (if Halted vm then (vm, history)
      else case Step vm of
             Inl err \<Rightarrow> (vm, history)
           | Inr vm' \<Rightarrow> simulate_loop n vm' (history @ [GetState vm']))"

definition simulate :: "u16 list \<Rightarrow> int \<Rightarrow> go_error + VM \<times> VMState list" where
  "simulate machineCode maxCycles =
     and_then (LoadProgram machineCode 0 NewVM)
       (\<lambda>vm. Inr (simulate_loop (nat (if maxCycles = 0 then 1000 else maxCycles)) vm []))"

section \<open>The assembler (simulator/assembler.go)\<close>

text \<open>
  The \<open>Address\<close> field of the \<open>Assembler\<close> struct is \<open>NextAddress\<close> here, since a
  record field of that name belongs to \<open>Instruction\<close>. A nil slice of operands is the
  empty list.
\<close>

record Instruction =
  Label :: string
  Opcode :: string
  Operands :: "string list"
  Address :: u16

record Assembler =
  Labels :: "string \<rightharpoonup> u16"
  Instructions :: "Instruction list"
  NextAddress :: u16

definition Opcodes :: "string \<rightharpoonup> u8" where
  "Opcodes = map_of
     [(''NOP'', 0x0), (''ADD'', 0x1), (''ADDI'', 0x2), (''SUB'', 0x3), (''AND'', 0x4),
      (''OR'', 0x5), (''XOR'', 0x6), (''NOT'', 0x7), (''SHL'', 0x8), (''SHR'', 0x9),
      (''LOAD'', 0xA), (''STORE'', 0xB), (''LOADI'', 0xC), (''JMP'', 0xD), (''BEQ'', 0xE),
      (''BNE'', 0xF), (''HALT'', 0xFF)]"

definition NewAssembler :: Assembler where
  "NewAssembler = \<lparr>Labels = Map.empty, Instructions = [], NextAddress = 0\<rparr>"

text \<open>Both parsers drop the error of \<open>strconv\<close> and keep the value.\<close>

definition parseRegister :: "string \<Rightarrow> u8" where
  "parseRegister reg0 =
     (let reg = ToUpper reg0 in
      if HasPrefix reg ''R'' then word_of_int (fst (ParseInt (drop 1 reg) 16 32)) else 0)"

definition parseImmediate :: "string \<Rightarrow> int" where
  "parseImmediate imm0 =
     (let imm = TrimSpace imm0 in
      if HasPrefix imm ''0X'' \<or> HasPrefix imm ''0x'' then fst (ParseInt (drop 2 imm) 16 32)
      else if HasPrefix imm ''0B'' \<or> HasPrefix imm ''0b'' then fst (ParseInt (drop 2 imm) 2 32)
      else fst (Atoi imm))"

text \<open>
  \<open>encodeInstruction\<close>. The operands are indexed in the order of the source's
  statements, so the first index that is not below \<open>len(instr.Operands)\<close> panics.
  \<open>int16(labelAddr-instr.Address-2) / 2\<close> is Go's signed division, which truncates.
\<close>

definition encodeInstruction :: "Assembler \<Rightarrow> Instruction \<Rightarrow> go_error + u16" where
  "encodeInstruction a instr =
     (case Opcodes (Opcode instr) of
        None \<Rightarrow> Inl (Errorf (''unknown opcode: '' @ Opcode instr))
      | Some opcode \<Rightarrow>
          if Opcode instr = ''NOP'' then Inr 0x0000
          else if Opcode instr = ''HALT'' then Inr 0xFFFF
          else if Opcode instr \<in> set [''ADD'', ''SUB'', ''AND'', ''OR'', ''XOR'', ''SHL'', ''SHR''] then
            and_then (index_op (Operands instr) 0) (\<lambda>op0. let rd = parseRegister op0 in
            and_then (index_op (Operands instr) 1) (\<lambda>op1. let rs = parseRegister op1 in
            and_then (index_op (Operands instr) 2) (\<lambda>op2. let rt = parseRegister op2 in
            Inr (push_bit 12 (ucast opcode) OR push_bit 8 (ucast rd) OR push_bit 4 (ucast rs)
                 OR ucast rt))))
          else if Opcode instr = ''NOT'' then
            and_then (index_op (Operands instr) 0) (\<lambda>op0. let rd = parseRegister op0 in
            and_then (index_op (Operands instr) 1) (\<lambda>op1. let rs = parseRegister op1 in
            Inr (push_bit 12 (ucast opcode) OR push_bit 8 (ucast rd) OR push_bit 4 (ucast rs))))
          else if Opcode instr \<in> set [''ADDI'', ''LOADI''] then
            and_then (index_op (Operands instr) 0) (\<lambda>op0. let rd = parseRegister op0 in
            and_then (index_op (Operands instr) 1) (\<lambda>op1. let imm = parseImmediate op1 AND 0xFF in
            Inr (push_bit 12 (ucast opcode) OR push_bit 8 (ucast rd) OR word_of_int imm)))
          else if Opcode instr \<in> set [''LOAD'', ''STORE''] then
            and_then (index_op (Operands instr) 0) (\<lambda>op0. let rd = parseRegister op0 in
            and_then (index_op (Operands instr) 1) (\<lambda>op1. let rs = parseRegister op1 in
            and_then (index_op (Operands instr) 2) (\<lambda>op2. let offset = parseImmediate op2 AND 0xF in
            Inr (push_bit 12 (ucast opcode) OR push_bit 8 (ucast rd) OR push_bit 4 (ucast rs)
                 OR word_of_int offset))))
          else if Opcode instr = ''JMP'' then
            and_then (index_op (Operands instr) 0) (\<lambda>op0.
            let addr = (case Labels a op0 of
                          Some labelAddr \<Rightarrow> labelAddr
                        | None \<Rightarrow> word_of_int (parseImmediate op0))
            in Inr (push_bit 12 (ucast opcode) OR (addr AND 0xFFF)))
          else if Opcode instr \<in> set [''BEQ'', ''BNE''] then
            and_then (index_op (Operands instr) 0) (\<lambda>op0. let rc = parseRegister op0 in
            and_then (index_op (Operands instr) 1) (\<lambda>op1.
            let offset = (case Labels a op1 of
                            Some labelAddr \<Rightarrow>
                              (word_of_int (sint (labelAddr - Address instr - 2) sdiv 2) :: u16)
                          | None \<Rightarrow> word_of_int (parseImmediate op1))
            in Inr (push_bit 12 (ucast opcode) OR push_bit 8 (ucast rc) OR (offset AND 0xFF))))
          else Inl (Errorf (''cannot encode instruction: '' @ Opcode instr)))"

text \<open>\<open>secondPass\<close>: the loop over \<open>a.Instructions\<close>, ended by the first error.\<close>

fun secondPass_loop :: "Assembler \<Rightarrow> Instruction list \<Rightarrow> u16 list \<Rightarrow> go_error + u16 list" where
  "secondPass_loop a [] machineCode = Inr machineCode"
| "secondPass_loop a (instr # instrs) machineCode =
     (case encodeInstruction a instr of
        Inl err \<Rightarrow> Inl err
      | Inr code \<Rightarrow> secondPass_loop a instrs (machineCode @ [code]))"

definition secondPass :: "Assembler \<Rightarrow> go_error + u16 list" where
  "secondPass a = secondPass_loop a (Instructions a) []"

text \<open>
  The body of the loop of \<open>firstPass\<close> for one line. \<open>parts[0]\<close> and
  \<open>parts[1]\<close> are index expressions of the source, so they are modelled as such.
\<close>

definition firstPass_line :: "Assembler \<Rightarrow> string \<Rightarrow> go_error + Assembler" where
  "firstPass_line a line0 =
     (let line1 = (case Index line0 CHR '';'' of Some idx \<Rightarrow> take idx line0 | None \<Rightarrow> line0);
          line2 = TrimSpace line1
      in
      if line2 = [] then Inr a
      else
        and_then
          (if Contains line2 CHR '':'' then
             (let parts = SplitN2 line2 CHR '':'' in
              and_then (index_op parts 0) (\<lambda>p0. let label = TrimSpace p0 in
              and_then (index_op parts 1) (\<lambda>p1.
              Inr (label, a\<lparr>Labels := (Labels a)(label \<mapsto> NextAddress a)\<rparr>, TrimSpace p1))))
           else Inr ([], a, line2))
          (\<lambda>(label, a1, line3).
             if line3 \<noteq> [] then
               (let parts = Fields line3 in
                and_then (index_op parts 0) (\<lambda>p0. let opcode = ToUpper p0 in
                let operands =
                      (if length parts > 1
                       then map TrimSpace (Split (concat (drop 1 parts)) CHR '','')
                       else [])
                in Inr (a1\<lparr>Instructions := Instructions a1 @
                              [\<lparr>Label = label, Opcode = opcode, Operands = operands,
                                Address = NextAddress a1\<rparr>],
                            NextAddress := NextAddress a1 + 2\<rparr>)))
             else Inr a1))"

fun firstPass_loop :: "Assembler \<Rightarrow> string list \<Rightarrow> go_error + Assembler" where
  "firstPass_loop a [] = Inr a"
| "firstPass_loop a (line # lines) =
     and_then (firstPass_line a line) (\<lambda>a1. firstPass_loop a1 lines)"

definition firstPass :: "Assembler \<Rightarrow> string \<Rightarrow> go_error + Assembler" where
  "firstPass a source =
     firstPass_loop (a\<lparr>Labels := Map.empty, Instructions := [], NextAddress := 0\<rparr>)
       (Split source CHR 0x0A)"

definition Assemble :: "Assembler \<Rightarrow> string \<Rightarrow> go_error + u16 list" where
  "Assemble a source = and_then (firstPass a source) secondPass"

section \<open>The disassembler (simulator/disassembler.go)\<close>

text \<open>
  The fields of \<open>DisassembledInstruction\<close> carry the prefix \<open>d_\<close>: \<open>Address\<close> and
  \<open>Operands\<close> are fields of \<open>Instruction\<close> already.
\<close>

record DisassembledInstruction =
  d_Address :: u16
  d_MachineCode :: u16
  d_Mnemonic :: string
  d_Operands :: string
  d_Comment :: string

definition disassembleInstruction :: "u16 \<Rightarrow> u16 \<Rightarrow> DisassembledInstruction" where
  "disassembleInstruction instruction address =
     (if instruction = 0x0000 then
        \<lparr>d_Address = address, d_MachineCode = instruction, d_Mnemonic = ''NOP'',
         d_Operands = [], d_Comment = ''No operation''\<rparr>
      else if instruction = 0xFFFF then
        \<lparr>d_Address = address, d_MachineCode = instruction, d_Mnemonic = ''HALT'',
         d_Operands = [], d_Comment = ''Stop execution''\<rparr>
      else
        let opcode = drop_bit 12 instruction AND 0xF;
            rd = drop_bit 8 instruction AND 0xF;
            rs = drop_bit 4 instruction AND 0xF;
            rt = instruction AND 0xF;
            imm8 = instruction AND 0xFF;
            offset = instruction AND 0xF;
            addr12 = instruction AND 0xFFF;
            (mnemonic, operands, comment) =
              (if opcode = 0x1 then
                 (''ADD'',
                  ''R'' @ fmt_X rd @ '', R'' @ fmt_X rs @ '', R'' @ fmt_X rt,
                  ''R'' @ fmt_X rd @ '' = R'' @ fmt_X rs @ '' + R'' @ fmt_X rt)
               else if opcode = 0x2 then
                 (''ADDI'',
                  ''R'' @ fmt_X rd @ '', 0x'' @ fmt_02X imm8,
                  ''R'' @ fmt_X rd @ '' = R'' @ fmt_X rd @ '' + 0x'' @ fmt_02X imm8)
               else if opcode = 0x3 then
                 (''SUB'',
                  ''R'' @ fmt_X rd @ '', R'' @ fmt_X rs @ '', R'' @ fmt_X rt,
                  ''R'' @ fmt_X rd @ '' = R'' @ fmt_X rs @ '' - R'' @ fmt_X rt)
               else if opcode = 0xC then
                 (''LOADI'',
                  ''R'' @ fmt_X rd @ '', 0x'' @ fmt_02X imm8,
                  ''R'' @ fmt_X rd @ '' = 0x'' @ fmt_02X imm8)
               else if opcode = 0xD then
                 (''JMP'', ''0x'' @ fmt_03X addr12, ''PC = 0x'' @ fmt_03X addr12)
               else if opcode = 0xE then
                 (''BEQ'',
                  ''R'' @ fmt_X rd @ '', '' @ fmt_d (sint (ucast imm8 :: u8)),
                  ''Branch if zero'')
               else if opcode = 0xF then
                 (''BNE'',
                  ''R'' @ fmt_X rd @ '', '' @ fmt_d (sint (ucast imm8 :: u8)),
                  ''Branch if not zero'')
               else
                 (''UNKNOWN_'' @ fmt_X opcode, [], ''Unknown opcode: 0x'' @ fmt_X opcode))
        in \<lparr>d_Address = address, d_MachineCode = instruction, d_Mnemonic = mnemonic,
            d_Operands = operands, d_Comment = comment\<rparr>)"

text \<open>\<open>Disassemble\<close>: the loop over the code words; the address advances by 2.\<close>

fun Disassemble :: "u16 list \<Rightarrow> u16 \<Rightarrow> DisassembledInstruction list" where
  "Disassemble [] address = []"
| "Disassemble (instruction # machineCode) address =
     disassembleInstruction instruction address # Disassemble machineCode (address + 2)"

section \<open>States and programs the properties are stated on\<close>

text \<open>The word that \<open>Fetch\<close> reads: \<open>vm.Memory[vm.PC/2]\<close>.\<close>

definition instr_at_pc :: "VM \<Rightarrow> u16" where
  "instr_at_pc vm = Memory vm (unat (PC vm div 2))"

text \<open>
  A fresh machine whose memory holds \<open>program\<close> from word 0 on, as the simulate
  handler builds it with \<open>NewVM\<close> and \<open>LoadProgram(program, 0)\<close>.
\<close>

definition example_vm :: "u16 list \<Rightarrow> VM" where
  "example_vm program =
     NewVM\<lparr>Memory := (\<lambda>i. if i < length program then program ! i else 0)\<rparr>"

text \<open>
  The states an executor instance can be in: created by \<open>NewVM\<close> and changed only by
  its own operations.
\<close>

inductive reachable :: "VM \<Rightarrow> bool" where
  reachable_new: "reachable NewVM"
| reachable_load:
    "reachable vm \<Longrightarrow> LoadProgram program startAddr vm = Inr vm' \<Longrightarrow> reachable vm'"
| reachable_step: "reachable vm \<Longrightarrow> Step vm = Inr vm' \<Longrightarrow> reachable vm'"
| reachable_reset: "reachable vm \<Longrightarrow> reachable (Reset vm)"

text \<open>The machine after the fetch and the count of the cycle, before the dispatch.\<close>

definition after_fetch :: "VM \<Rightarrow> VM" where
  "after_fetch vm = vm\<lparr>PC := PC vm + 2, CycleCount := CycleCount vm + 1\<rparr>"

text \<open>\<open>AND R1, R2, R3\<close> at address 0, with the carry flag set beforehand.\<close>

definition c2_pre :: VM where
  "c2_pre = (example_vm [0x4123])\<lparr>SR := 4\<rparr>"

text \<open>\<open>ADDI R3, 0x01\<close> at address 0, with \<open>R3 = 0xFFFF\<close>.\<close>

definition c8_pre :: VM where
  "c8_pre = (example_vm [0x2301])\<lparr>Registers := (\<lambda>_. 0)(3 := 0xFFFF)\<rparr>"

text \<open>
  \<open>LOAD R1, R0, 1\<close> at address 0 followed by the data word \<open>0x1234\<close>; and
  \<open>STORE R1, R2, 0\<close> with \<open>R1 = 0xBEEF\<close> and \<open>R2 = 0xFFFF\<close>, the highest byte
  address.
\<close>

definition c10_load :: VM where
  "c10_load = example_vm [0xA101, 0x1234]"

definition c10_store :: VM where
  "c10_store = (example_vm [0xB120])\<lparr>Registers := (\<lambda>_. 0)(1 := 0xBEEF, 2 := 0xFFFF)\<rparr>"

text \<open>
  Scenario S4 of the specification after the first pass: the label \<open>skip\<close> at byte
  address 6 and the instruction \<open>BEQ R1, skip\<close> at byte address 2.
\<close>

definition s4_asm :: Assembler where
  "s4_asm = \<lparr>Labels = [''skip'' \<mapsto> 6], Instructions = [], NextAddress = 8\<rparr>"

definition s4_beq :: Instruction where
  "s4_beq = \<lparr>Label = [], Opcode = ''BEQ'', Operands = [''R1'', ''skip''], Address = 2\<rparr>"

text \<open>
  A program whose branch target is \<open>n\<close> instructions ahead of the branch: \<open>BEQ R1, far\<close>,
  then \<open>n\<close> lines \<open>NOP\<close>, then \<open>far: HALT\<close>. \<open>nop_lines n a\<close> is the assembler
  after the first pass has read \<open>n\<close> lines \<open>NOP\<close> from the state \<open>a\<close>.
\<close>

definition far_branch_source :: "nat \<Rightarrow> string" where
  "far_branch_source n =
     ''BEQ R1, far'' @ [CHR 0x0A] @ concat (replicate n (''NOP'' @ [CHR 0x0A])) @ ''far: HALT''"

definition nop_instr :: "u16 \<Rightarrow> Instruction" where
  "nop_instr addr = \<lparr>Label = [], Opcode = ''NOP'', Operands = [], Address = addr\<rparr>"

fun nop_lines :: "nat \<Rightarrow> Assembler \<Rightarrow> Assembler" where
  "nop_lines 0 a = a"
| "nop_lines (Suc n) a =
     nop_lines n (a\<lparr>Instructions := Instructions a @ [nop_instr (NextAddress a)],
                    NextAddress := NextAddress a + 2\<rparr>)"

text \<open>
  One instruction of every mnemonic the disassembler has a case for, written the way the
  disassembler prints operands; and one of every other mnemonic of the \<open>Opcodes\<close> table.
\<close>

definition supported_source :: string where
  "supported_source =
     ''ADD R1, R2, R3'' @ [CHR 0x0A] @ ''ADDI R1, 0x2A'' @ [CHR 0x0A] @
     ''SUB RF, RE, RD'' @ [CHR 0x0A] @ ''LOADI R2, 0xFF'' @ [CHR 0x0A] @
     ''JMP 0x0AB'' @ [CHR 0x0A] @ ''BEQ R1, -2'' @ [CHR 0x0A] @
     ''BNE R1, 3'' @ [CHR 0x0A] @ ''NOP'' @ [CHR 0x0A] @ ''HALT''"

definition unsupported_source :: string where
  "unsupported_source =
     ''AND R1, R2, R3'' @ [CHR 0x0A] @ ''OR R1, R2, R3'' @ [CHR 0x0A] @
     ''XOR R1, R2, R3'' @ [CHR 0x0A] @ ''NOT R1, R2'' @ [CHR 0x0A] @
     ''SHL R1, R2, R3'' @ [CHR 0x0A] @ ''SHR R1, R2, R3'' @ [CHR 0x0A] @
     ''LOAD R1, R2, 3'' @ [CHR 0x0A] @ ''STORE R1, R2, 3''"

text \<open>Scenario S6 of the specification: a jump to a label that is defined nowhere.\<close>

definition s6_source :: string where
  "s6_source = ''JMP nowhere'' @ [CHR 0x0A] @ ''HALT''"

definition s6_jmp :: Instruction where
  "s6_jmp = \<lparr>Label = [], Opcode = ''JMP'', Operands = [''nowhere''], Address = 0\<rparr>"

definition s6_beq :: Instruction where
  "s6_beq = \<lparr>Label = [], Opcode = ''BEQ'', Operands = [''R1'', ''nowhere''], Address = 0\<rparr>"

section \<open>Properties of the executor\<close>

subsection \<open>Word indices and the fetch\<close>

lemma word_index_in_range: "(x :: u16) div 2 < MemoryLen16"
proof -
  have "unat (x div 2) = unat x div 2"
    by (simp add: unat_div)
  moreover have "unat x < 65536"
    using unsigned_less [of x, where 'a = nat] by simp
  ultimately have "unat (x div 2) < 32768"
    by simp
  then show ?thesis
    by (simp add: MemoryLen16_def MemoryLen_def word_less_nat_alt)
qed

lemma unat_index_in_range: "unat ((x :: u16) div 2) < MemoryLen"
  using word_index_in_range [of x]
  by (simp add: MemoryLen16_def MemoryLen_def word_less_nat_alt)

lemma mem_address_in_range: "mem_address base offset < MemoryLen16"
  unfolding mem_address_def by (rule word_index_in_range)

lemma Fetch_eq: "Fetch vm = (instr_at_pc vm, vm\<lparr>PC := PC vm + 2\<rparr>)"
  using word_index_in_range [of "PC vm"] by (auto simp add: Fetch_def instr_at_pc_def)

lemma decode_opcode_FFFF: "decode_opcode 0xFFFF = 0xF"
  by (simp add: decode_opcode_def)

text \<open>Loading a program that fits into memory at address 0 of a fresh machine.\<close>

lemma LoadProgram_loop_Memory:
  "i + length p \<le> MemoryLen \<Longrightarrow>
   LoadProgram_loop i p 0 vm =
     Inr (vm\<lparr>Memory := (\<lambda>k. if i \<le> k \<and> k < i + length p then p ! (k - i) else Memory vm k)\<rparr>)"
proof (induction p arbitrary: i vm)
  case Nil
  have "(\<lambda>k. if i \<le> k \<and> k < i + length ([] :: u16 list) then [] ! (k - i) else Memory vm k) =
        Memory vm"
    by (auto simp add: fun_eq_iff)
  then show ?case by simp
next
  case (Cons x p)
  then have i: "i < MemoryLen" "Suc i + length p \<le> MemoryLen"
    by simp_all
  then have idx: "unat (0 div 2 + word_of_nat i :: u16) = i"
    by (simp add: MemoryLen_def unat_of_nat)
  have "(\<lambda>k. if Suc i \<le> k \<and> k < Suc i + length p then p ! (k - Suc i)
             else ((Memory vm)(i := x)) k) =
        (\<lambda>k. if i \<le> k \<and> k < i + length (x # p) then (x # p) ! (k - i) else Memory vm k)"
    by (auto simp add: fun_eq_iff nth_Cons' Suc_diff_le)
  with Cons.IH [OF i(2), of "vm\<lparr>Memory := (Memory vm)(i := x)\<rparr>"] i(1) idx
  show ?case
    by (simp cong: if_cong)
qed

lemma LoadProgram_example:
  "length program \<le> MemoryLen \<Longrightarrow> LoadProgram program 0 NewVM = Inr (example_vm program)"
proof -
  assume "length program \<le> MemoryLen"
  then have "LoadProgram_loop 0 program 0 NewVM =
     Inr (NewVM\<lparr>Memory := (\<lambda>k. if 0 \<le> k \<and> k < 0 + length program then program ! (k - 0)
                                else Memory NewVM k)\<rparr>)"
    by (intro LoadProgram_loop_Memory) simp
  moreover have "(\<lambda>k. if 0 \<le> k \<and> k < 0 + length program then program ! (k - 0)
                    else Memory NewVM k) =
                 (\<lambda>i. if i < length program then program ! i else 0)"
    by (auto simp add: fun_eq_iff NewVM_def)
  ultimately show ?thesis
    by (simp only: LoadProgram_def example_vm_def)
qed

lemma example_simps:
  "Halted (example_vm p) = False" "PC (example_vm p) = 0" "SR (example_vm p) = 0"
  "Registers (example_vm p) = (\<lambda>_. 0)" "SP (example_vm p) = 0xFFFE" "LR (example_vm p) = 0"
  "CycleCount (example_vm p) = 0"
  "Memory (example_vm p) i = (if i < length p then p ! i else 0)"
  by (simp_all add: example_vm_def NewVM_def)

text \<open>
  Claim C10. The word index of \<open>Fetch\<close> and the word index of \<open>LOAD\<close> and
  \<open>STORE\<close> are below 32768 for every 16-bit \<open>PC\<close>, base register and offset, so
  none of the three range guards is ever taken: \<open>Fetch\<close> always reads the memory and
  advances \<open>PC\<close>, a \<open>LOAD\<close> step always writes its register and a \<open>STORE\<close>
  step always writes the memory.
\<close>

theorem index_guards_never_taken:
  "PC vm div 2 < MemoryLen16 \<and> unat (PC vm div 2) < MemoryLen \<and>
   Fetch vm = (Memory vm (unat (PC vm div 2)), vm\<lparr>PC := PC vm + 2\<rparr>) \<and>
   mem_address base offset < MemoryLen16 \<and> unat (mem_address base offset) < MemoryLen \<and>
   (\<not> Halted vl \<and> decode_opcode (instr_at_pc vl) = 0xA \<longrightarrow>
      Step vl = Inr (write_reg (decode_rd (instr_at_pc vl))
                      (Memory vl (unat (mem_address (Registers vl (decode_rs (instr_at_pc vl)))
                                          (decode_offset (instr_at_pc vl)))))
                      (after_fetch vl))) \<and>
   (\<not> Halted vs \<and> decode_opcode (instr_at_pc vs) = 0xB \<longrightarrow>
      Step vs = Inr ((after_fetch vs)\<lparr>Memory := (Memory vs)
                      (unat (mem_address (Registers vs (decode_rs (instr_at_pc vs)))
                               (decode_offset (instr_at_pc vs)))
                         := Registers vs (decode_rd (instr_at_pc vs)))\<rparr>))"
proof (intro conjI impI)
  show "PC vm div 2 < MemoryLen16" by (rule word_index_in_range)
  show "unat (PC vm div 2) < MemoryLen" by (rule unat_index_in_range)
  show "Fetch vm = (Memory vm (unat (PC vm div 2)), vm\<lparr>PC := PC vm + 2\<rparr>)"
    by (simp add: Fetch_eq instr_at_pc_def)
  show "mem_address base offset < MemoryLen16" by (rule mem_address_in_range)
  show "unat (mem_address base offset) < MemoryLen"
    unfolding mem_address_def by (rule unat_index_in_range)
next
  assume "\<not> Halted vl \<and> decode_opcode (instr_at_pc vl) = 0xA"
  then show "Step vl = Inr (write_reg (decode_rd (instr_at_pc vl))
                      (Memory vl (unat (mem_address (Registers vl (decode_rs (instr_at_pc vl)))
                                          (decode_offset (instr_at_pc vl)))))
                      (after_fetch vl))"
    by (simp add: Step_def Fetch_eq Let_def mem_address_in_range after_fetch_def)
next
  assume "\<not> Halted vs \<and> decode_opcode (instr_at_pc vs) = 0xB"
  then show "Step vs = Inr ((after_fetch vs)\<lparr>Memory := (Memory vs)
                      (unat (mem_address (Registers vs (decode_rs (instr_at_pc vs)))
                               (decode_offset (instr_at_pc vs)))
                         := Registers vs (decode_rd (instr_at_pc vs)))\<rparr>)"
    by (simp add: Step_def Fetch_eq Let_def mem_address_in_range after_fetch_def)
qed

theorem index_guards_never_taken_witness:
  "\<not> Halted c10_load \<and> decode_opcode (instr_at_pc c10_load) = 0xA \<and>
   Step c10_load = Inr (write_reg 1 0x1234 (after_fetch c10_load)) \<and>
   \<not> Halted c10_store \<and> decode_opcode (instr_at_pc c10_store) = 0xB \<and>
   Step c10_store = Inr ((after_fetch c10_store)\<lparr>Memory := (Memory c10_store)(32767 := 0xBEEF)\<rparr>)"
proof -
  have l: "\<not> Halted c10_load" "instr_at_pc c10_load = 0xA101"
    by (simp_all add: c10_load_def instr_at_pc_def example_simps)
  have s: "\<not> Halted c10_store" "instr_at_pc c10_store = 0xB120"
    by (simp_all add: c10_store_def instr_at_pc_def example_simps)
  have lo: "decode_opcode (instr_at_pc c10_load) = 0xA"
    by (simp add: l decode_opcode_def)
  have so: "decode_opcode (instr_at_pc c10_store) = 0xB"
    by (simp add: s decode_opcode_def)
  have lv: "Memory c10_load (unat (mem_address (Registers c10_load (decode_rs 0xA101))
              (decode_offset 0xA101))) = 0x1234" "decode_rd 0xA101 = 1"
    by (simp_all add: c10_load_def example_simps mem_address_def decode_rs_def
        decode_offset_def decode_rd_def)
  have sv: "unat (mem_address (Registers c10_store (decode_rs 0xB120)) (decode_offset 0xB120))
              = 32767" "Registers c10_store (decode_rd 0xB120) = 0xBEEF"
    by (simp_all add: c10_store_def mem_address_def decode_rs_def decode_offset_def
        decode_rd_def)
  from index_guards_never_taken [where vl = c10_load and vs = c10_store] l(1) lo s(1) so
  have "Step c10_load = Inr (write_reg 1 0x1234 (after_fetch c10_load))"
    and "Step c10_store =
           Inr ((after_fetch c10_store)\<lparr>Memory := (Memory c10_store)(32767 := 0xBEEF)\<rparr>)"
    by (simp_all add: l(2) s(2) lv sv)
  with l(1) lo s(1) so show ?thesis by blast
qed

subsection \<open>The halting step\<close>

text \<open>
  Claim C9. From a machine that is not halted and whose word at \<open>PC\<close> is \<open>0xFFFF\<close>,
  one step succeeds, sets the halted flag and moves \<open>PC\<close> to the pre-fetch \<open>PC\<close> plus
  2; the registers, \<open>SP\<close>, \<open>LR\<close>, \<open>SR\<close> and the memory are those of the pre-state
  (the cycle counter counts the fetch).
\<close>

theorem halt_step_frame:
  assumes "\<not> Halted vm" and "instr_at_pc vm = 0xFFFF"
  shows "\<exists>vm'. Step vm = Inr vm' \<and> Halted vm' \<and> PC vm' = PC vm + 2 \<and>
           Registers vm' = Registers vm \<and> SP vm' = SP vm \<and> LR vm' = LR vm \<and>
           SR vm' = SR vm \<and> Memory vm' = Memory vm \<and>
           CycleCount vm' = CycleCount vm + 1"
  using assms by (simp add: Step_def Fetch_eq Let_def decode_opcode_FFFF)

theorem halt_step_frame_witness:
  "\<not> Halted (example_vm [0xFFFF]) \<and> instr_at_pc (example_vm [0xFFFF]) = 0xFFFF \<and>
   (\<exists>vm'. Step (example_vm [0xFFFF]) = Inr vm' \<and> Halted vm' \<and>
           PC vm' = PC (example_vm [0xFFFF]) + 2 \<and>
           Registers vm' = Registers (example_vm [0xFFFF]) \<and>
           SP vm' = SP (example_vm [0xFFFF]) \<and> LR vm' = LR (example_vm [0xFFFF]) \<and>
           SR vm' = SR (example_vm [0xFFFF]) \<and> Memory vm' = Memory (example_vm [0xFFFF]) \<and>
           CycleCount vm' = CycleCount (example_vm [0xFFFF]) + 1)"
proof -
  have h1: "\<not> Halted (example_vm [0xFFFF])"
    by (simp add: example_vm_def NewVM_def)
  have h2: "instr_at_pc (example_vm [0xFFFF]) = 0xFFFF"
    by (simp add: example_vm_def NewVM_def instr_at_pc_def)
  from halt_step_frame [OF h1 h2] h1 h2 show ?thesis
    by blast
qed

subsection \<open>The status register\<close>

lemma SR_UpdateFlags:
  "SR (UpdateFlags r vm) =
     (SR vm AND 0xFFF0) OR (if r = 0 then 1 else 0) OR (if r AND 0x8000 \<noteq> 0 then 2 else 0)"
  by (simp add: UpdateFlags_def Let_def)

lemma bit15: "(r AND 0x8000 \<noteq> 0) = bit (r::u16) 15"
proof -
  have "r AND 0x8000 = r AND push_bit 15 1" by simp
  also have "\<dots> \<noteq> 0 \<longleftrightarrow> bit r 15"
    by (simp only: and_exp_eq_0_iff_not_bit push_bit_of_1) simp
  finally show ?thesis .
qed

lemma UpdateFlags_bits:
  "bit (SR (UpdateFlags r vm)) 0 = (r = 0)"
  "bit (SR (UpdateFlags r vm)) (Suc 0) = bit r 15"
  "\<not> bit (SR (UpdateFlags r vm)) 2"
  "\<not> bit (SR (UpdateFlags r vm)) 3"
  by (simp_all add: SR_UpdateFlags bit15 bit_simps)

lemma UpdateFlags_high: "SR (UpdateFlags r vm) AND 0xFFF0 = SR vm AND 0xFFF0"
  by (simp add: SR_UpdateFlags bit.conj_disj_distrib2 and.assoc)

lemma UpdateFlags_other:
  "Registers (UpdateFlags r vm) = Registers vm" "PC (UpdateFlags r vm) = PC vm"
  "Memory (UpdateFlags r vm) = Memory vm" "Halted (UpdateFlags r vm) = Halted vm"
  by (simp_all add: UpdateFlags_def Let_def)

lemma SR_UpdateFlagsWithCarry:
  "SR (UpdateFlagsWithCarry r vm) =
     SR (UpdateFlags (ucast r) vm) OR (if r > 0xFFFF then 4 else 0)"
  by (simp add: UpdateFlagsWithCarry_def Let_def)

lemma UpdateFlagsWithCarry_bits:
  "bit (SR (UpdateFlagsWithCarry r vm)) 0 = ((ucast r :: u16) = 0)"
  "bit (SR (UpdateFlagsWithCarry r vm)) (Suc 0) = bit (ucast r :: u16) 15"
  "bit (SR (UpdateFlagsWithCarry r vm)) 2 = (r > 0xFFFF)"
  using UpdateFlags_bits [of "ucast r" vm]
  by (simp_all add: SR_UpdateFlagsWithCarry bit_simps)

lemma UpdateFlagsWithCarry_other:
  "Registers (UpdateFlagsWithCarry r vm) = Registers vm"
  by (simp add: UpdateFlagsWithCarry_def Let_def UpdateFlags_other)

lemma write_reg_simps:
  "Registers (write_reg rd v vm) 0 = 0"
  "rd \<noteq> 0 \<Longrightarrow> Registers (write_reg rd v vm) rd = v"
  "SR (write_reg rd v vm) = SR vm"
  by (simp_all add: write_reg_def)

lemma unat_sum32: "unat ((ucast (a::u16) :: u32) + ucast (b::u16)) = unat a + unat b"
proof -
  have "unat a < 65536" "unat b < 65536"
    using unsigned_less [of a, where 'a = nat] unsigned_less [of b, where 'a = nat]
    by simp_all
  then show ?thesis
    by (simp add: unat_word_ariths unsigned_ucast_eq take_bit_eq_mod)
qed

lemma sum32_low: "(ucast ((ucast (a::u16) :: u32) + ucast (b::u16)) :: u16) = a + b"
proof -
  let ?s = "(ucast a :: u32) + ucast b"
  have "unat (ucast ?s :: u16) = unat ?s mod 65536"
    by (simp only: unsigned_ucast_eq take_bit_eq_mod) simp
  also have "\<dots> = (unat a + unat b) mod 65536"
    by (simp only: unat_sum32)
  also have "\<dots> = unat (a + b)"
    by (simp add: unat_word_ariths)
  finally show ?thesis
    by (simp only: word_unat_eq_iff)
qed

lemma sum32_carry:
  "((ucast (a::u16) :: u32) + ucast (b::u16) > 0xFFFF) = (unat a + unat b > 0xFFFF)"
  by (simp add: word_less_nat_alt unat_sum32)

lemma ucast8_32: "(ucast (i::u8) :: u32) = ucast (ucast i :: u16)"
  by (simp add: ucast_up_ucast is_up)

text \<open>
  Claim C8. \<open>ADDI R3, 0x01\<close> on \<open>R3 = 0xFFFF\<close> leaves \<open>R3 = 0x0000\<close> with
  \<open>Z = 1\<close>, \<open>N = 0\<close>, \<open>C = 1\<close>. In general a step of \<open>ADD\<close> or \<open>ADDI\<close> sets
  \<open>Z\<close> (bit 0 of \<open>SR\<close>) iff the 16-bit sum is 0, \<open>N\<close> (bit 1) iff bit 15 of the sum
  is set, and \<open>C\<close> (bit 2) iff the sum of the operands as unsigned numbers exceeds
  \<open>0xFFFF\<close>.
\<close>

theorem arith_step_flags:
  "(\<not> Halted vm \<and> instr_at_pc vm = 0x2301 \<and> Registers vm 3 = 0xFFFF \<longrightarrow>
      (\<exists>vm'. Step vm = Inr vm' \<and> Registers vm' 3 = 0x0000 \<and>
             bit (SR vm') 0 \<and> \<not> bit (SR vm') 1 \<and> bit (SR vm') 2)) \<and>
   (\<not> Halted vm \<and> decode_opcode (instr_at_pc vm) \<in> {0x1, 0x2} \<longrightarrow>
      (\<exists>vm'. Step vm = Inr vm' \<and>
         (let w = instr_at_pc vm;
              a = (if decode_opcode w = 0x1 then Registers vm (decode_rs w)
                   else Registers vm (decode_rd w));
              b = (if decode_opcode w = 0x1 then Registers vm (decode_rt w)
                   else ucast (decode_imm8 w))
          in (decode_rd w \<noteq> 0 \<longrightarrow> Registers vm' (decode_rd w) = a + b) \<and>
             (bit (SR vm') 0 \<longleftrightarrow> a + b = 0) \<and>
             (bit (SR vm') 1 \<longleftrightarrow> bit (a + b) 15) \<and>
             (bit (SR vm') 2 \<longleftrightarrow> unat a + unat b > 0xFFFF))))"
proof (intro conjI impI)
  assume "\<not> Halted vm \<and> instr_at_pc vm = 0x2301 \<and> Registers vm 3 = 0xFFFF"
  then show "\<exists>vm'. Step vm = Inr vm' \<and> Registers vm' 3 = 0x0000 \<and>
             bit (SR vm') 0 \<and> \<not> bit (SR vm') 1 \<and> bit (SR vm') 2"
    by (simp add: Step_def Fetch_eq Let_def decode_opcode_def decode_rd_def decode_imm8_def
        UpdateFlagsWithCarry_bits UpdateFlagsWithCarry_other write_reg_def)
next
  assume h: "\<not> Halted vm \<and> decode_opcode (instr_at_pc vm) \<in> {0x1, 0x2}"
  let ?P = "\<exists>vm'. Step vm = Inr vm' \<and>
         (let w = instr_at_pc vm;
              a = (if decode_opcode w = 0x1 then Registers vm (decode_rs w)
                   else Registers vm (decode_rd w));
              b = (if decode_opcode w = 0x1 then Registers vm (decode_rt w)
                   else ucast (decode_imm8 w))
          in (decode_rd w \<noteq> 0 \<longrightarrow> Registers vm' (decode_rd w) = a + b) \<and>
             (bit (SR vm') 0 \<longleftrightarrow> a + b = 0) \<and>
             (bit (SR vm') 1 \<longleftrightarrow> bit (a + b) 15) \<and>
             (bit (SR vm') 2 \<longleftrightarrow> unat a + unat b > 0xFFFF))"
  from h have nh: "\<not> Halted vm" and
    "decode_opcode (instr_at_pc vm) = 0x1 \<or> decode_opcode (instr_at_pc vm) = 0x2"
    by simp_all
  then show ?P
  proof (elim disjE)
    assume "decode_opcode (instr_at_pc vm) = 0x1"
    with nh show ?P
      by (simp add: Step_def Fetch_eq Let_def UpdateFlagsWithCarry_bits
          UpdateFlagsWithCarry_other write_reg_simps sum32_low sum32_carry)
  next
    assume "decode_opcode (instr_at_pc vm) = 0x2"
    with nh show ?P
      by (simp add: Step_def Fetch_eq Let_def UpdateFlagsWithCarry_bits
          UpdateFlagsWithCarry_other write_reg_simps sum32_low sum32_carry ucast8_32)
  qed
qed

theorem arith_step_flags_witness:
  "\<not> Halted c8_pre \<and> instr_at_pc c8_pre = 0x2301 \<and> Registers c8_pre 3 = 0xFFFF \<and>
   decode_opcode (instr_at_pc c8_pre) \<in> {0x1, 0x2} \<and>
   (\<exists>vm'. Step c8_pre = Inr vm' \<and> Registers vm' 3 = 0x0000 \<and>
          bit (SR vm') 0 \<and> \<not> bit (SR vm') 1 \<and> bit (SR vm') 2)"
proof -
  have h: "\<not> Halted c8_pre \<and> instr_at_pc c8_pre = 0x2301 \<and> Registers c8_pre 3 = 0xFFFF"
    by (simp add: c8_pre_def instr_at_pc_def example_simps)
  moreover have "decode_opcode (instr_at_pc c8_pre) \<in> {0x1, 0x2}"
    using h by (simp add: decode_opcode_def)
  ultimately show ?thesis
    using arith_step_flags [of c8_pre] by blast
qed

text \<open>
  Claim C2, as the code has it. A step of a logical instruction (opcodes \<open>0x4\<close> to
  \<open>0x7\<close>) or of a shift (opcodes \<open>0x8\<close> and \<open>0x9\<close>) sets \<open>Z\<close> and \<open>N\<close> from
  the result, clears bit 2 (\<open>C\<close>) and bit 3 of \<open>SR\<close>, and leaves bits 4 to 15 of
  \<open>SR\<close> as they were: the mask \<open>0xFFF0\<close> of \<open>UpdateFlags\<close> clears the lower four
  bits, the carry flag among them.
\<close>

theorem logic_step_flags:
  assumes "\<not> Halted vm"
    and "decode_opcode (instr_at_pc vm) \<in> {0x4, 0x5, 0x6, 0x7, 0x8, 0x9}"
  shows "\<exists>vm'. Step vm = Inr vm' \<and>
           SR vm' AND 0xFFF0 = SR vm AND 0xFFF0 \<and>
           \<not> bit (SR vm') 2 \<and> \<not> bit (SR vm') 3 \<and>
           (let w = instr_at_pc vm; op = decode_opcode w;
                a = Registers vm (decode_rs w); b = Registers vm (decode_rt w);
                result = (if op = 0x4 then a AND b else if op = 0x5 then a OR b
                          else if op = 0x6 then a XOR b else if op = 0x7 then NOT a
                          else if op = 0x8 then push_bit (unat (b AND 0xF)) a
                          else drop_bit (unat (b AND 0xF)) a)
            in (bit (SR vm') 0 \<longleftrightarrow> result = 0) \<and> (bit (SR vm') 1 \<longleftrightarrow> bit result 15) \<and>
               (decode_rd w \<noteq> 0 \<longrightarrow> Registers vm' (decode_rd w) = result))"
  using assms
  by (elim insertE emptyE)
    (simp_all add: Step_def Fetch_eq Let_def UpdateFlags_bits UpdateFlags_high
      UpdateFlags_other write_reg_simps)

theorem logic_step_flags_witness:
  "\<not> Halted (example_vm [0x4123]) \<and>
   decode_opcode (instr_at_pc (example_vm [0x4123])) \<in> {0x4, 0x5, 0x6, 0x7, 0x8, 0x9} \<and>
   (\<exists>vm'. Step (example_vm [0x4123]) = Inr vm' \<and> bit (SR vm') 0 \<and> \<not> bit (SR vm') 1 \<and>
          \<not> bit (SR vm') 2 \<and> \<not> bit (SR vm') 3)"
proof -
  have h1: "\<not> Halted (example_vm [0x4123])"
    by (simp add: example_simps)
  have w: "instr_at_pc (example_vm [0x4123]) = 0x4123"
    by (simp add: instr_at_pc_def example_simps)
  have h2: "decode_opcode (instr_at_pc (example_vm [0x4123])) \<in> {0x4, 0x5, 0x6, 0x7, 0x8, 0x9}"
    by (simp add: w decode_opcode_def)
  from logic_step_flags [OF h1 h2] obtain vm' where
    "Step (example_vm [0x4123]) = Inr vm'" "\<not> bit (SR vm') 2" "\<not> bit (SR vm') 3"
    "bit (SR vm') 0" "\<not> bit (SR vm') 1"
    by (auto simp add: w decode_opcode_def decode_rs_def decode_rt_def example_simps Let_def)
  with h1 h2 show ?thesis by blast
qed

text \<open>
  The carry flag does not survive a logical step: with \<open>C\<close> set, \<open>AND R1, R2, R3\<close>
  on zero registers leaves \<open>SR = 1\<close>.
\<close>

theorem logic_step_clears_carry_counterexample:
  "\<not> Halted c2_pre \<and> decode_opcode (instr_at_pc c2_pre) = 0x4 \<and> bit (SR c2_pre) 2 \<and>
   Step c2_pre = Inr (c2_pre\<lparr>PC := 2, CycleCount := 1, SR := 1\<rparr>) \<and>
   \<not> bit (SR (c2_pre\<lparr>PC := 2, CycleCount := 1, SR := 1\<rparr>)) 2"
  by (simp add: c2_pre_def Step_def Fetch_eq instr_at_pc_def example_simps Let_def
      decode_opcode_def decode_rd_def decode_rs_def decode_rt_def decode_imm8_def
      decode_offset_def decode_addr12_def UpdateFlags_def write_reg_def example_vm_def
      NewVM_def fun_eq_iff)

subsection \<open>Reset\<close>

text \<open>
  Claim C4, as the code has it. \<open>Reset\<close> sets all registers to 0, \<open>PC = 0\<close>,
  \<open>SP = 0xFFFE\<close>, \<open>LR = 0\<close>, \<open>SR = 0\<close>, clears the halted flag and the cycle
  counter, and leaves every memory word as it was.
\<close>

theorem reset_keeps_memory:
  "Registers (Reset vm) = (\<lambda>_. 0) \<and> PC (Reset vm) = 0 \<and> SP (Reset vm) = 0xFFFE \<and>
   LR (Reset vm) = 0 \<and> SR (Reset vm) = 0 \<and> Halted (Reset vm) = False \<and>
   CycleCount (Reset vm) = 0 \<and> Memory (Reset vm) = Memory vm"
  by (simp add: Reset_def)

text \<open>A loaded program is still in memory after \<open>Reset\<close>.\<close>

theorem reset_memory_counterexample:
  "Memory (Reset (example_vm [0xC12A, 0xFFFF])) 0 = 0xC12A \<and>
   Memory (Reset (example_vm [0xC12A, 0xFFFF])) 0 \<noteq> 0"
  by (simp add: Reset_def example_simps)

subsection \<open>Register 0\<close>

lemma LoadProgram_loop_Registers:
  "LoadProgram_loop i program a vm = Inr vm' \<Longrightarrow> Registers vm' = Registers vm"
  by (induction i program a vm rule: LoadProgram_loop.induct)
     (auto simp: Let_def split: if_splits)

lemma Step_R0:
  assumes "Registers vm 0 = 0" and "Step vm = Inr vm'"
  shows "Registers vm' 0 = 0"
  using assms
  by (auto simp add: Step_def Fetch_eq Let_def write_reg_simps UpdateFlags_other
      UpdateFlagsWithCarry_other split: if_splits)

lemma reachable_R0: "reachable vm \<Longrightarrow> Registers vm 0 = 0"
proof (induction rule: reachable.induct)
  case reachable_new
  show ?case by (simp add: NewVM_def)
next
  case (reachable_load vm program startAddr vm')
  then show ?case
    by (simp add: LoadProgram_def LoadProgram_loop_Registers)
next
  case (reachable_step vm vm')
  then show ?case by (simp add: Step_R0)
next
  case (reachable_reset vm)
  show ?case by (simp add: Reset_def)
qed

text \<open>
  Claim C5. A successful step from a state with \<open>R0 = 0\<close> ends in a state with
  \<open>R0 = 0\<close>, whatever the instruction is; and \<open>R0 = 0\<close> holds in every reachable
  state of the executor.
\<close>

theorem r0_stays_zero:
  "(Registers vm 0 = 0 \<and> Step vm = Inr vm' \<longrightarrow> Registers vm' 0 = 0) \<and>
   (reachable vm \<longrightarrow> Registers vm 0 = 0)"
  using Step_R0 [of vm vm'] reachable_R0 [of vm] by blast

lemma load_example:
  "LoadProgram [0xC07F, 0xFFFF] 0 NewVM = Inr (example_vm [0xC07F, 0xFFFF])"
  by (rule LoadProgram_example) (simp add: MemoryLen_def)

lemma step_example:
  "Step (example_vm [0xC07F, 0xFFFF]) =
     Inr (after_fetch (example_vm [0xC07F, 0xFFFF]))"
  by (simp add: Step_def Fetch_eq instr_at_pc_def example_simps Let_def decode_opcode_def
      decode_rd_def decode_imm8_def write_reg_def after_fetch_def fun_eq_iff)

theorem r0_stays_zero_witness:
  "Registers (example_vm [0xC07F, 0xFFFF]) 0 = 0 \<and>
   Step (example_vm [0xC07F, 0xFFFF]) = Inr (after_fetch (example_vm [0xC07F, 0xFFFF])) \<and>
   Registers (after_fetch (example_vm [0xC07F, 0xFFFF])) 0 = 0 \<and>
   reachable (after_fetch (example_vm [0xC07F, 0xFFFF]))"
proof -
  let ?vm = "example_vm [0xC07F, 0xFFFF]"
  have h1: "Registers ?vm 0 = 0"
    by (simp add: example_simps)
  have h2: "Step ?vm = Inr (after_fetch ?vm)"
    by (rule step_example)
  have "reachable ?vm"
    using reachable_new load_example by (rule reachable_load)
  then have h3: "reachable (after_fetch ?vm)"
    using h2 by (rule reachable_step)
  from r0_stays_zero [of ?vm "after_fetch ?vm"] r0_stays_zero [of "after_fetch ?vm"] h1 h2 h3
  show ?thesis by blast
qed

subsection \<open>Scenarios of the specification on the executor\<close>

text \<open>
  The code words of scenarios S1, S4 and S5, run by the simulate loop: \<open>R1 = 0x2A\<close>
  at \<open>PC = 4\<close> after two cycles; the \<open>LOADI R2, 1\<close> behind the taken branch is
  skipped; a \<open>LOADI\<close> into \<open>R0\<close> leaves it 0.
\<close>

lemma simulate_loop_numeral:
  "simulate_loop (numeral k) vm history =
     (if Halted vm then (vm, history)
      else case Step vm of
             Inl err \<Rightarrow> (vm, history)
           | Inr vm' \<Rightarrow> simulate_loop (pred_numeral k) vm' (history @ [GetState vm']))"
  by (simp add: numeral_eq_Suc)

lemmas vm_defs = Step_def Fetch_eq instr_at_pc_def MemoryLen_def Let_def decode_opcode_def
  decode_rd_def decode_rs_def decode_rt_def decode_imm8_def decode_offset_def
  decode_addr12_def write_reg_def UpdateFlags_def UpdateFlagsWithCarry_def signedOffset_def
  branch_target_def mem_address_def LoadProgram_def NewVM_def simulate_def and_then_def
  simulate_loop_numeral GetState_def

lemma scenario_S1:
  "\<exists>vm history. simulate [0xC12A, 0xFFFF] 0 = Inr (vm, history) \<and> Registers vm 1 = 0x2A \<and>
     PC vm = 4 \<and> Halted vm \<and> CycleCount vm = 2"
  by (simp add: vm_defs)

lemma scenario_S4:
  "\<exists>vm history. simulate [0xC100, 0xE101, 0xC201, 0xFFFF] 0 = Inr (vm, history) \<and>
     Registers vm 2 = 0 \<and> Halted vm \<and> CycleCount vm = 3"
  by (simp add: vm_defs)

lemma scenario_S5:
  "\<exists>vm history. simulate [0xC07F, 0xFFFF] 0 = Inr (vm, history) \<and> Registers vm 0 = 0 \<and>
     Halted vm"
  by (simp add: vm_defs)

section \<open>Properties of the assembler and the disassembler\<close>

lemmas str_defs = TrimSpace_def isSpace_def Fields_def Split_def SplitN2_def Contains_def
  ToUpper_def upper_char_def HasPrefix_def ParseInt_def ParseUint_def digit_value_def Atoi_def

lemmas asm_defs = Assemble_def firstPass_def firstPass_line_def secondPass_def
  encodeInstruction_def parseRegister_def parseImmediate_def and_then_def index_op_def
  Opcodes_def NewAssembler_def Let_def

lemmas dis_defs = disassembleInstruction_def fmt_X_def fmt_02X_def fmt_03X_def fmt_d_def
  pad0_def digit_char_def fmt_base.simps Let_def

subsection \<open>Branch offsets\<close>

lemma encode_branch_label:
  assumes "Opcode instr = ''BEQ'' \<or> Opcode instr = ''BNE''"
    and "Operands instr = r # name # rest"
    and "Labels a name = Some target"
  shows "encodeInstruction a instr =
     Inr (push_bit 12 (if Opcode instr = ''BEQ'' then 0xE else 0xF)
          OR push_bit 8 (ucast (parseRegister r))
          OR ((word_of_int (sint (target - Address instr - 2) sdiv 2) :: u16) AND 0xFF))"
  using assms
  by (elim disjE) (simp_all add: encodeInstruction_def Opcodes_def and_then_def index_op_def)

lemma byte_mask: "(0xFF :: u16) = mask 8"
  by (simp add: mask_eq_exp_minus_1)

lemma low_byte_of_encoding:
  "decode_imm8 (push_bit 12 x OR push_bit 8 y OR ((word_of_int d :: u16) AND 0xFF)) = word_of_int d"
  unfolding decode_imm8_def byte_mask
  by (rule bit_word_eqI) (auto simp add: bit_simps)

lemma sint_byte: "- 128 \<le> d \<Longrightarrow> d \<le> 127 \<Longrightarrow> sint (word_of_int d :: u8) = d"
  by (simp add: sint_sbintrunc' signed_take_bit_int_eq_self)

lemma sint_diff16:
  assumes "- 32768 \<le> uint t - (uint a + 2)" and "uint t - (uint a + 2) \<le> 32767"
  shows "sint ((t :: u16) - a - 2) = uint t - (uint a + 2)"
proof -
  have "t - a - 2 = word_of_int (uint t - (uint a + 2))"
    by simp
  then have "sint (t - a - 2) = signed_take_bit 15 (uint t - (uint a + 2))"
    by (simp only: sint_sbintrunc') simp
  also have "\<dots> = uint t - (uint a + 2)"
    using assms by (simp add: signed_take_bit_int_eq_self)
  finally show ?thesis .
qed

text \<open>
  Claim C6, as the code has it. For a \<open>BEQ\<close> or \<open>BNE\<close> whose target is a label of
  the label table, \<open>encodeInstruction\<close> never fails: it computes
  \<open>target - address - 2\<close> in 16 bits, halves it as a signed number and stores the low
  8 bits in the \<open>imm8\<close> field, so an offset outside \<open>-128..127\<close> wraps silently.
  When \<open>(target - (address + 2)) / 2\<close> does lie within \<open>-128..127\<close>, the field read
  as a signed 8-bit number is that offset.
\<close>

theorem branch_offset_wraps:
  assumes "Opcode instr = ''BEQ'' \<or> Opcode instr = ''BNE''"
    and "Operands instr = r # name # rest"
    and "Labels a name = Some target"
  shows "\<exists>w. encodeInstruction a instr = Inr w \<and>
           decode_imm8 w = word_of_int (sint (target - Address instr - 2) sdiv 2) \<and>
           (- 128 \<le> (uint target - (uint (Address instr) + 2)) sdiv 2 \<and>
            (uint target - (uint (Address instr) + 2)) sdiv 2 \<le> 127 \<longrightarrow>
              sint (decode_imm8 w) = (uint target - (uint (Address instr) + 2)) sdiv 2)"
proof -
  let ?k = "uint target - (uint (Address instr) + 2)"
  let ?d = "sint (target - Address instr - 2) sdiv 2"
  let ?w = "push_bit 12 (if Opcode instr = ''BEQ'' then 0xE else 0xF)
          OR push_bit 8 (ucast (parseRegister r))
          OR ((word_of_int ?d :: u16) AND 0xFF)"
  have enc: "encodeInstruction a instr = Inr ?w"
    using assms by (rule encode_branch_label)
  have field: "decode_imm8 ?w = word_of_int ?d"
    by (rule low_byte_of_encoding)
  have "sint (decode_imm8 ?w) = ?k sdiv 2" if lo: "- 128 \<le> ?k sdiv 2" and hi: "?k sdiv 2 \<le> 127"
  proof -
    from lo hi have "- 32768 \<le> ?k" "?k \<le> 32767"
      by (auto simp add: signed_divide_int_def sgn_if split: if_splits)
    then have "sint (target - Address instr - 2) = ?k"
      by (rule sint_diff16)
    then have "?d = ?k sdiv 2"
      by simp
    with field lo hi show ?thesis
      by (simp add: sint_byte)
  qed
  with enc field show ?thesis
    by blast
qed

theorem branch_offset_wraps_witness:
  "(Opcode s4_beq = ''BEQ'' \<or> Opcode s4_beq = ''BNE'') \<and>
   Operands s4_beq = ''R1'' # ''skip'' # [] \<and> Labels s4_asm ''skip'' = Some 6 \<and>
   Address s4_beq = 2 \<and>
   (\<exists>w. encodeInstruction s4_asm s4_beq = Inr w \<and> decode_imm8 w = 1 \<and>
        sint (decode_imm8 w) = 1)"
proof -
  have h1: "Opcode s4_beq = ''BEQ'' \<or> Opcode s4_beq = ''BNE''"
    and h2: "Operands s4_beq = ''R1'' # ''skip'' # []"
    and addr: "Address s4_beq = 2"
    by (simp_all add: s4_beq_def)
  have h3: "Labels s4_asm ''skip'' = Some 6"
    by (simp add: s4_asm_def)
  from branch_offset_wraps [OF h1 h2 h3] obtain w where
    "encodeInstruction s4_asm s4_beq = Inr w" "decode_imm8 w = 1" "sint (decode_imm8 w) = 1"
    by (auto simp add: addr signed_divide_int_def)
  with h1 h2 h3 addr show ?thesis
    by blast
qed

text \<open>
  A branch over 128 instructions is assembled: the offset 128 is stored as \<open>0x80\<close>,
  which the executor and the disassembler read as \<open>-128\<close>. The same holds for every
  distance \<open>n\<close>.
\<close>

lemma Split_loop_no_sep:
  "sep \<notin> set xs \<Longrightarrow> Split_loop cur xs sep = [cur @ xs]"
  by (induction xs arbitrary: cur) auto

lemma Split_loop_first:
  "sep \<notin> set xs \<Longrightarrow> Split_loop cur (xs @ sep # rest) sep = (cur @ xs) # Split_loop [] rest sep"
  by (induction xs arbitrary: cur) auto

lemma Split_nop_lines:
  "Split_loop [] (concat (replicate n (''NOP'' @ [CHR 0x0A])) @ tail) CHR 0x0A =
     replicate n ''NOP'' @ Split_loop [] tail CHR 0x0A"
proof (induction n)
  case 0
  show ?case by simp
next
  case (Suc n)
  have "Split_loop [] (''NOP'' @ CHR 0x0A # (concat (replicate n (''NOP'' @ [CHR 0x0A])) @ tail))
          CHR 0x0A =
        ([] @ ''NOP'') # Split_loop [] (concat (replicate n (''NOP'' @ [CHR 0x0A])) @ tail) CHR 0x0A"
    by (rule Split_loop_first) simp
  with Suc show ?case by simp
qed

lemma Split_far_branch_source:
  "Split (far_branch_source n) CHR 0x0A = ''BEQ R1, far'' # replicate n ''NOP'' @ [''far: HALT'']"
proof -
  let ?nops = "concat (replicate n (''NOP'' @ [CHR 0x0A]))"
  have "far_branch_source n = ''BEQ R1, far'' @ CHR 0x0A # (?nops @ ''far: HALT'')"
    by (simp add: far_branch_source_def)
  then have "Split (far_branch_source n) CHR 0x0A =
      Split_loop [] (''BEQ R1, far'' @ CHR 0x0A # (?nops @ ''far: HALT'')) CHR 0x0A"
    by (simp only: Split_def)
  also have "\<dots> = ([] @ ''BEQ R1, far'') # Split_loop [] (?nops @ ''far: HALT'') CHR 0x0A"
    by (rule Split_loop_first) simp
  also have "Split_loop [] (?nops @ ''far: HALT'') CHR 0x0A =
      replicate n ''NOP'' @ Split_loop [] ''far: HALT'' CHR 0x0A"
    by (rule Split_nop_lines)
  also have "Split_loop [] ''far: HALT'' CHR 0x0A = [[] @ ''far: HALT'']"
    by (rule Split_loop_no_sep) simp
  finally show ?thesis
    by simp
qed

lemma firstPass_line_nop:
  "firstPass_line a ''NOP'' =
     Inr (a\<lparr>Instructions := Instructions a @ [nop_instr (NextAddress a)],
            NextAddress := NextAddress a + 2\<rparr>)"
  by (simp add: firstPass_line_def str_defs and_then_def index_op_def nop_instr_def)

lemma firstPass_loop_nops:
  "firstPass_loop a (replicate n ''NOP'' @ rest) = firstPass_loop (nop_lines n a) rest"
  by (induction n arbitrary: a) (simp_all add: firstPass_line_nop and_then_def)

lemma firstPass_line_branch:
  "firstPass_line a ''BEQ R1, far'' =
     Inr (a\<lparr>Instructions := Instructions a @
               [\<lparr>Label = [], Opcode = ''BEQ'', Operands = [''R1'', ''far''],
                 Address = NextAddress a\<rparr>],
            NextAddress := NextAddress a + 2\<rparr>)"
  by (simp add: firstPass_line_def str_defs and_then_def index_op_def)

lemma firstPass_line_label:
  "firstPass_line a ''far: HALT'' =
     Inr (a\<lparr>Labels := (Labels a)(''far'' \<mapsto> NextAddress a),
            Instructions := Instructions a @
               [\<lparr>Label = ''far'', Opcode = ''HALT'', Operands = [],
                 Address = NextAddress a\<rparr>],
            NextAddress := NextAddress a + 2\<rparr>)"
  by (simp add: firstPass_line_def str_defs and_then_def index_op_def Let_def)

lemma nop_lines_Labels: "Labels (nop_lines n a) = Labels a"
  by (induction n arbitrary: a) simp_all

lemma nop_lines_NextAddress: "NextAddress (nop_lines n a) = NextAddress a + 2 * word_of_nat n"
  by (induction n arbitrary: a) simp_all

lemma nop_lines_Instructions:
  "\<exists>nops. Instructions (nop_lines n a) = Instructions a @ nops \<and> length nops = n \<and>
          (\<forall>i \<in> set nops. Opcode i = ''NOP'')"
proof (induction n arbitrary: a)
  case 0
  show ?case by simp
next
  case (Suc n)
  let ?a = "a\<lparr>Instructions := Instructions a @ [nop_instr (NextAddress a)],
              NextAddress := NextAddress a + 2\<rparr>"
  from Suc [of ?a] obtain nops where
    "Instructions (nop_lines n ?a) = Instructions ?a @ nops" "length nops = n"
    "\<forall>i \<in> set nops. Opcode i = ''NOP''"
    by blast
  then have "Instructions (nop_lines (Suc n) a) = Instructions a @ (nop_instr (NextAddress a) # nops)
      \<and> length (nop_instr (NextAddress a) # nops) = Suc n
      \<and> (\<forall>i \<in> set (nop_instr (NextAddress a) # nops). Opcode i = ''NOP'')"
    by (simp add: nop_instr_def)
  then show ?case by blast
qed

lemma encode_nop: "Opcode i = ''NOP'' \<Longrightarrow> encodeInstruction a i = Inr 0"
  by (simp add: encodeInstruction_def Opcodes_def)

lemma encode_halt: "Opcode i = ''HALT'' \<Longrightarrow> encodeInstruction a i = Inr 0xFFFF"
  by (simp add: encodeInstruction_def Opcodes_def)

lemma secondPass_loop_nops:
  "\<forall>i \<in> set nops. Opcode i = ''NOP'' \<Longrightarrow>
     secondPass_loop a (nops @ rest) acc = secondPass_loop a rest (acc @ replicate (length nops) 0)"
proof (induction nops arbitrary: acc)
  case Nil
  show ?case by simp
next
  case (Cons i nops)
  then show ?case
    by (simp add: encode_nop replicate_append_same)
qed

lemma parseRegister_R1: "parseRegister ''R1'' = 1"
  by (simp add: parseRegister_def str_defs)

lemma far_branch_assembles:
  "Assemble NewAssembler (far_branch_source n) =
     Inr ((0xE100 OR ((word_of_int (sint (2 * word_of_nat n :: u16) sdiv 2) :: u16) AND 0xFF))
          # replicate n 0 @ [0xFFFF])"
proof -
  let ?a0 = "NewAssembler\<lparr>Labels := Map.empty, Instructions := [], NextAddress := 0\<rparr>"
  let ?beq = "\<lparr>Label = [], Opcode = ''BEQ'', Operands = [''R1'', ''far''], Address = 0\<rparr>"
  let ?a1 = "\<lparr>Labels = Map.empty, Instructions = [?beq], NextAddress = 2\<rparr>"
  let ?an = "nop_lines n ?a1"
  let ?halt = "\<lparr>Label = ''far'', Opcode = ''HALT'', Operands = [], Address = NextAddress ?an\<rparr>"
  let ?af = "?an\<lparr>Labels := (Labels ?an)(''far'' \<mapsto> NextAddress ?an),
            Instructions := Instructions ?an @ [?halt],
            NextAddress := NextAddress ?an + 2\<rparr>"
  have a1: "firstPass_line ?a0 ''BEQ R1, far'' = Inr ?a1"
    by (simp add: firstPass_line_branch NewAssembler_def)
  have first: "firstPass NewAssembler (far_branch_source n) = Inr ?af"
    by (simp only: firstPass_def Split_far_branch_source firstPass_loop.simps
        a1 and_then_def sum.case firstPass_loop_nops firstPass_line_label)
  obtain nops where nops: "Instructions ?an = Instructions ?a1 @ nops" "length nops = n"
    "\<forall>i \<in> set nops. Opcode i = ''NOP''"
    using nop_lines_Instructions [of n ?a1] by blast
  have instrs: "Instructions ?af = ?beq # (nops @ [?halt])"
    using nops(1) by simp
  have target: "Labels ?af ''far'' = Some (2 + 2 * word_of_nat n)"
    by (simp add: nop_lines_NextAddress)
  have "encodeInstruction ?af ?beq =
     Inr (push_bit 12 (if Opcode ?beq = ''BEQ'' then 0xE else 0xF)
          OR push_bit 8 (ucast (parseRegister ''R1''))
          OR ((word_of_int (sint ((2 + 2 * word_of_nat n) - Address ?beq - 2) sdiv 2) :: u16)
               AND 0xFF))"
    by (rule encode_branch_label [OF _ _ target]) simp_all
  then have beq: "encodeInstruction ?af ?beq =
     Inr (0xE100 OR ((word_of_int (sint (2 * word_of_nat n :: u16) sdiv 2) :: u16) AND 0xFF))"
    by (simp add: parseRegister_R1 or.assoc [symmetric])
  have "secondPass ?af = secondPass_loop ?af (?beq # (nops @ [?halt])) []"
    by (simp only: secondPass_def instrs)
  also have "\<dots> = Inr ((0xE100 OR ((word_of_int (sint (2 * word_of_nat n :: u16) sdiv 2) :: u16)
                AND 0xFF)) # replicate n 0 @ [0xFFFF])"
    using nops(2,3) by (simp add: beq secondPass_loop_nops encode_halt)
  finally show ?thesis
    by (simp only: Assemble_def first and_then_def sum.case)
qed

theorem far_branch_counterexample:
  "Assemble NewAssembler (far_branch_source 128) = Inr (0xE180 # replicate 128 0x0000 @ [0xFFFF])"
  using far_branch_assembles [of 128] by simp

subsection \<open>Undefined labels\<close>

lemma digit_char_cases:
  assumes "(48::nat) \<le> of_char c" and "(of_char c :: nat) \<le> 57"
  shows "c \<in> set ''0123456789''"
proof -
  from assms have "(of_char c :: nat) = 48 \<or> (of_char c :: nat) = 49 \<or>
      (of_char c :: nat) = 50 \<or> (of_char c :: nat) = 51 \<or> (of_char c :: nat) = 52 \<or>
      (of_char c :: nat) = 53 \<or> (of_char c :: nat) = 54 \<or> (of_char c :: nat) = 55 \<or>
      (of_char c :: nat) = 56 \<or> (of_char c :: nat) = 57"
    by arith
  then have "(of_char c :: nat) \<in> {48, 49, 50, 51, 52, 53, 54, 55, 56, 57}"
    by blast
  then have "(of_char c :: nat) \<in> of_char ` set ''0123456789''"
    by simp
  then show ?thesis
    by (auto simp only: image_iff of_char_eq_iff)
qed

lemma ParseUint_no_digit:
  assumes "c \<notin> set ''0123456789''"
  shows "ParseUint (c # cs) 10 bitSize = (0, Some ErrSyntax)"
proof (cases "digit_value c")
  case None
  then show ?thesis by (simp add: ParseUint_def)
next
  case (Some d)
  have "\<not> ((48::nat) \<le> of_char c \<and> (of_char c :: nat) \<le> 57)"
    using assms digit_char_cases by blast
  with Some have "10 \<le> d"
    by (auto simp add: digit_value_def Let_def split: if_splits)
  with Some show ?thesis by (simp add: ParseUint_def)
qed

lemma parseImmediate_identifier:
  assumes "TrimSpace name = c # cs" and "c \<notin> set ''+-0123456789''"
  shows "parseImmediate name = 0"
proof -
  from assms(2) have c: "c \<noteq> CHR ''0''" "c \<noteq> CHR ''+''" "c \<noteq> CHR ''-''"
    "c \<notin> set ''0123456789''"
    by auto
  have "ParseInt (c # cs) 10 64 = (0, Some ErrSyntax)"
    using c by (simp add: ParseInt_def ParseUint_no_digit)
  with assms(1) c(1) show ?thesis
    by (simp add: parseImmediate_def HasPrefix_def Atoi_def)
qed

text \<open>
  Claim C3, as the code has it. A reference to a label that is not in the label table
  does not fail: \<open>encodeInstruction\<close> reads the operand of \<open>JMP\<close>, \<open>BEQ\<close> or
  \<open>BNE\<close> as an immediate instead, and the value of a name that starts with neither a
  sign nor a digit is 0, so that \<open>JMP nowhere\<close> is encoded as \<open>0xD000\<close> and the
  source \<open>JMP nowhere\<close>, \<open>HALT\<close> is assembled to \<open>0xD000\<close>, \<open>0xFFFF\<close>.
\<close>

theorem undefined_label_is_immediate:
  assumes "Labels a name = None"
    and "Opcode jmp = ''JMP''" and "Operands jmp = name # rest"
    and "Opcode br = ''BEQ'' \<or> Opcode br = ''BNE''" and "Operands br = r # name # rest'"
  shows "encodeInstruction a jmp = Inr (0xD000 OR (word_of_int (parseImmediate name) AND 0xFFF)) \<and>
         encodeInstruction a br =
           Inr (push_bit 12 (if Opcode br = ''BEQ'' then 0xE else 0xF)
                OR push_bit 8 (ucast (parseRegister r))
                OR (word_of_int (parseImmediate name) AND 0xFF)) \<and>
         (\<forall>c cs. TrimSpace name = c # cs \<and> c \<notin> set ''+-0123456789'' \<longrightarrow>
            parseImmediate name = 0 \<and> encodeInstruction a jmp = Inr 0xD000) \<and>
         Assemble NewAssembler s6_source = Inr [0xD000, 0xFFFF]"
proof -
  have s6: "Assemble NewAssembler s6_source = Inr [0xD000, 0xFFFF]"
    by (simp add: s6_source_def str_defs asm_defs)
  have j: "encodeInstruction a jmp =
             Inr (0xD000 OR (word_of_int (parseImmediate name) AND 0xFFF))"
    using assms(1-3)
    by (simp add: encodeInstruction_def Opcodes_def and_then_def index_op_def)
  have b: "encodeInstruction a br =
           Inr (push_bit 12 (if Opcode br = ''BEQ'' then 0xE else 0xF)
                OR push_bit 8 (ucast (parseRegister r))
                OR (word_of_int (parseImmediate name) AND 0xFF))"
    using assms(4) assms(1,5)
    by (elim disjE) (simp_all add: encodeInstruction_def Opcodes_def and_then_def index_op_def)
  have "parseImmediate name = 0 \<and> encodeInstruction a jmp = Inr 0xD000"
    if "TrimSpace name = c # cs \<and> c \<notin> set ''+-0123456789''" for c cs
    using that j parseImmediate_identifier [of name c cs] by simp
  with j b s6 show ?thesis by blast
qed

theorem undefined_label_is_immediate_witness:
  "Labels NewAssembler ''nowhere'' = None \<and>
   Opcode s6_jmp = ''JMP'' \<and> Operands s6_jmp = ''nowhere'' # [] \<and>
   (Opcode s6_beq = ''BEQ'' \<or> Opcode s6_beq = ''BNE'') \<and>
   Operands s6_beq = ''R1'' # ''nowhere'' # [] \<and>
   TrimSpace ''nowhere'' = CHR ''n'' # ''owhere'' \<and> CHR ''n'' \<notin> set ''+-0123456789'' \<and>
   parseImmediate ''nowhere'' = 0 \<and>
   encodeInstruction NewAssembler s6_jmp = Inr 0xD000 \<and>
   encodeInstruction NewAssembler s6_beq = Inr 0xE100"
proof -
  have h1: "Labels NewAssembler ''nowhere'' = None"
    by (simp add: NewAssembler_def)
  have h2: "Opcode s6_jmp = ''JMP''" and h3: "Operands s6_jmp = ''nowhere'' # []"
    by (simp_all add: s6_jmp_def)
  have h4: "Opcode s6_beq = ''BEQ'' \<or> Opcode s6_beq = ''BNE''"
    and h5: "Operands s6_beq = ''R1'' # ''nowhere'' # []"
    by (simp_all add: s6_beq_def)
  have h6: "TrimSpace ''nowhere'' = CHR ''n'' # ''owhere'' \<and> CHR ''n'' \<notin> set ''+-0123456789''"
    by (simp add: TrimSpace_def isSpace_def)
  note inst = undefined_label_is_immediate [OF h1 h2 h3 h4 h5]
  from inst h6 have z: "parseImmediate ''nowhere'' = 0"
    and j: "encodeInstruction NewAssembler s6_jmp = Inr 0xD000"
    by (blast+)
  from inst z have "encodeInstruction NewAssembler s6_beq = Inr 0xE100"
    by (simp add: s6_beq_def parseRegister_R1)
  with h1 h2 h3 h4 h5 h6 z j show ?thesis by blast
qed

text \<open>The source \<open>JMP nowhere\<close>, \<open>HALT\<close> is assembled into two code words.\<close>

theorem undefined_label_counterexample:
  "Assemble NewAssembler s6_source = Inr [0xD000, 0xFFFF]"
  by (simp add: s6_source_def str_defs asm_defs)

subsection \<open>Operand counts\<close>

text \<open>
  Claim C7. \<open>encodeInstruction\<close> indexes \<open>instr.Operands\<close> without looking at its
  length: \<open>ADD\<close> with two operands panics at \<open>instr.Operands[2]\<close>, \<open>ADD\<close>
  without operands at \<open>instr.Operands[0]\<close>, and so for the other mnemonics that take
  operands. No error value is returned.
\<close>

theorem short_operand_list_panics:
  "encodeInstruction NewAssembler
     \<lparr>Label = [], Opcode = ''ADD'', Operands = [''R1'', ''R2''], Address = 0\<rparr> =
     Inl (PanicIndexOutOfRange 2 2) \<and>
   Assemble NewAssembler ''ADD R1, R2'' = Inl (PanicIndexOutOfRange 2 2) \<and>
   Assemble NewAssembler ''ADD'' = Inl (PanicIndexOutOfRange 0 0) \<and>
   Assemble NewAssembler ''NOT R1'' = Inl (PanicIndexOutOfRange 1 1) \<and>
   Assemble NewAssembler ''LOADI R1'' = Inl (PanicIndexOutOfRange 1 1) \<and>
   Assemble NewAssembler ''STORE R1, R2'' = Inl (PanicIndexOutOfRange 2 2) \<and>
   Assemble NewAssembler ''JMP'' = Inl (PanicIndexOutOfRange 0 0) \<and>
   Assemble NewAssembler ''BNE R1'' = Inl (PanicIndexOutOfRange 1 1)"
  by (simp add: str_defs asm_defs)

subsection \<open>Disassembling assembled code\<close>

text \<open>
  Claim C1. The disassembler has no case for the opcodes \<open>0x4\<close> to \<open>0xB\<close>, which
  the assembler and the executor know as the logical instructions, the shifts,
  \<open>LOAD\<close> and \<open>STORE\<close>: \<open>AND R1, R2, R3\<close> is assembled to
  \<open>0x4123\<close> and disassembled to the mnemonic \<open>UNKNOWN_4\<close> without operands, and so
  for each of the eight.
\<close>

theorem disassembler_misses_opcodes:
  "Assemble NewAssembler unsupported_source =
     Inr [0x4123, 0x5123, 0x6123, 0x7120, 0x8123, 0x9123, 0xA123, 0xB123] \<and>
   map d_Mnemonic
     (Disassemble [0x4123, 0x5123, 0x6123, 0x7120, 0x8123, 0x9123, 0xA123, 0xB123] 0) =
     [''UNKNOWN_4'', ''UNKNOWN_5'', ''UNKNOWN_6'', ''UNKNOWN_7'', ''UNKNOWN_8'', ''UNKNOWN_9'',
      ''UNKNOWN_A'', ''UNKNOWN_B''] \<and>
   map d_Operands
     (Disassemble [0x4123, 0x5123, 0x6123, 0x7120, 0x8123, 0x9123, 0xA123, 0xB123] 0) =
     [[], [], [], [], [], [], [], []]"
  by (simp add: unsupported_source_def str_defs asm_defs dis_defs)

text \<open>
  The mnemonics the disassembler does decode come back with the operands of the source.
\<close>

lemma supported_roundtrip_example:
  "Assemble NewAssembler supported_source =
     Inr [0x1123, 0x212A, 0x3FED, 0xC2FF, 0xD0AB, 0xE1FE, 0xF103, 0x0000, 0xFFFF] \<and>
   map (\<lambda>d. (d_Mnemonic d, d_Operands d))
     (Disassemble [0x1123, 0x212A, 0x3FED, 0xC2FF, 0xD0AB, 0xE1FE, 0xF103, 0x0000, 0xFFFF] 0) =
     [(''ADD'', ''R1, R2, R3''), (''ADDI'', ''R1, 0x2A''), (''SUB'', ''RF, RE, RD''),
      (''LOADI'', ''R2, 0xFF''), (''JMP'', ''0x0AB''), (''BEQ'', ''R1, -2''), (''BNE'', ''R1, 3''),
      (''NOP'', []), (''HALT'', [])]"
  by (simp add: supported_source_def str_defs asm_defs dis_defs)

subsection \<open>The mnemonics the disassembler decodes\<close>

text \<open>
  For \<open>NOP\<close>, \<open>HALT\<close>, \<open>ADD\<close>, \<open>SUB\<close>, \<open>ADDI\<close>, \<open>LOADI\<close>, \<open>JMP\<close>,
  \<open>BEQ\<close> and \<open>BNE\<close> the disassembler inverts the encoder: an instruction whose
  operands are written the way the disassembler prints them, with every value inside its
  field, is encoded to a word that is disassembled to the same mnemonic and operand text.
  The one exception is \<open>BNE RF, -1\<close>, whose code word is the \<open>HALT\<close> word
  \<open>0xFFFF\<close>. First, \<open>strconv\<close> reads back what \<open>fmt\<close> prints.
\<close>

lemma digit_value_digit_char: "d < 16 \<Longrightarrow> digit_value (digit_char d) = Some d"
proof -
  assume "d < 16"
  then have "d = 0 \<or> d = 1 \<or> d = 2 \<or> d = 3 \<or> d = 4 \<or> d = 5 \<or> d = 6 \<or> d = 7 \<or>
      d = 8 \<or> d = 9 \<or> d = 10 \<or> d = 11 \<or> d = 12 \<or> d = 13 \<or> d = 14 \<or> d = 15"
    by arith
  then show ?thesis
    by (elim disjE) (simp_all add: digit_value_def digit_char_def)
qed

lemma ParseUint_loop_append:
  "ParseUint_loop b mv acc xs = (n, None) \<Longrightarrow>
   ParseUint_loop b mv acc (xs @ ys) = ParseUint_loop b mv n ys"
  by (induction b mv acc xs rule: ParseUint_loop.induct)
     (auto simp add: Let_def split: option.splits if_splits)

lemma ParseUint_loop_fmt_base:
  assumes "2 \<le> b" "b \<le> 16" "n \<le> mv" "mv < 2 ^ 64"
  shows "ParseUint_loop b mv 0 (fmt_base b n) = (n, None)"
  using assms
proof (induction b n rule: fmt_base.induct)
  case (1 b n)
  show ?case
  proof (cases "n < b")
    case True
    with 1(2-) show ?thesis
      by (simp add: fmt_base.simps [of b n] digit_value_digit_char)
  next
    case False
    with 1(2) have rec: "fmt_base b n = fmt_base b (n div b) @ [digit_char (n mod b)]"
      by (simp add: fmt_base.simps [of b n])
    have "n div b \<le> mv"
      using 1(4) by (meson div_le_dividend le_trans)
    with 1 False have ih: "ParseUint_loop b mv 0 (fmt_base b (n div b)) = (n div b, None)"
      by simp
    have d: "n mod b < 16" "n mod b < b"
      using 1(2,3) by (auto intro: order_less_le_trans [OF mod_less_divisor])
    have n64: "n < 2 ^ 64"
      using 1(4,5) by simp
    have "n div b \<le> (2 ^ 64 - 1) div b"
      using n64 by (intro div_le_mono) simp
    then have cut: "n div b < (2 ^ 64 - 1) div b + 1"
      by simp
    have val: "n div b * b + n mod b = n"
      by simp
    show ?thesis
      unfolding rec ParseUint_loop_append [OF ih]
      using d cut val n64 1(4)
      by (simp add: digit_value_digit_char Let_def not_less)
  qed
qed


lemma ParseUint_loop_zeros:
  "0 < b \<Longrightarrow> ParseUint_loop b mv 0 (replicate k CHR ''0'' @ s) = ParseUint_loop b mv 0 s"
  by (induction k) (simp_all add: digit_value_def Let_def)

lemma fmt_base_not_Nil: "fmt_base b n \<noteq> []"
  by (subst fmt_base.simps) simp

lemma set_fmt_base: "2 \<le> b \<Longrightarrow> set (fmt_base b n) \<subseteq> digit_char ` {..<b}"
proof (induction b n rule: fmt_base.induct)
  case (1 b n)
  show ?case
  proof (cases "n < b")
    case True
    then show ?thesis
      by (simp add: fmt_base.simps [of b n])
  next
    case False
    with 1 have "set (fmt_base b (n div b)) \<subseteq> digit_char ` {..<b}"
      by simp
    moreover have "n mod b < b"
      using 1(2) by simp
    ultimately show ?thesis
      using False 1(2) by (simp add: fmt_base.simps [of b n])
  qed
qed

lemma ParseUint_fmt:
  assumes "2 \<le> b" "b \<le> 16" "n < 2 ^ bitSize" "bitSize \<le> 64"
  shows "ParseUint (pad0 k (fmt_base b n)) b bitSize = (n, None)"
proof -
  have "(2::nat) ^ bitSize \<le> 2 ^ 64"
    using assms(4) by (intro power_increasing) simp_all
  then have mv: "(2::nat) ^ bitSize - 1 < 2 ^ 64" "n \<le> 2 ^ bitSize - 1"
    using assms(3) by simp_all
  have "ParseUint_loop b (2 ^ bitSize - 1) 0 (fmt_base b n) = (n, None)"
    using assms(1,2) mv(2) mv(1) by (rule ParseUint_loop_fmt_base)
  then show ?thesis
    using assms(1) by (simp add: ParseUint_def pad0_def fmt_base_not_Nil ParseUint_loop_zeros)
qed

lemma digit_char_not_sign:
  "d < 16 \<Longrightarrow> digit_char d \<noteq> CHR ''+'' \<and> digit_char d \<noteq> CHR ''-'' \<and> \<not> isSpace (digit_char d)"
proof -
  assume "d < 16"
  then have "d = 0 \<or> d = 1 \<or> d = 2 \<or> d = 3 \<or> d = 4 \<or> d = 5 \<or> d = 6 \<or> d = 7 \<or>
      d = 8 \<or> d = 9 \<or> d = 10 \<or> d = 11 \<or> d = 12 \<or> d = 13 \<or> d = 14 \<or> d = 15"
    by arith
  then show ?thesis
    by (elim disjE) (simp_all add: digit_char_def isSpace_def)
qed

lemma set_pad0_fmt:
  assumes "2 \<le> b" "b \<le> 16"
  shows "set (pad0 k (fmt_base b n)) \<subseteq> digit_char ` {..<16}"
proof -
  have "set (fmt_base b n) \<subseteq> digit_char ` {..<16}"
    using set_fmt_base [OF assms(1), of n] assms(2) by fastforce
  moreover have "CHR ''0'' \<in> digit_char ` {..<16}"
    by (rule image_eqI [where x = 0]) (simp_all add: digit_char_def)
  ultimately show ?thesis
    by (auto simp add: pad0_def)
qed

lemma ParseInt_fmt:
  assumes "2 \<le> b" "b \<le> 16" "n < 2 ^ (bitSize - 1)" "0 < bitSize" "bitSize \<le> 64"
  shows "ParseInt (pad0 k (fmt_base b n)) b bitSize = (int n, None)"
proof -
  let ?s = "pad0 k (fmt_base b n)"
  have ne: "?s \<noteq> []"
    by (simp add: pad0_def fmt_base_not_Nil)
  then have "hd ?s \<in> set ?s"
    by simp
  then obtain d where "d < 16" "hd ?s = digit_char d"
    using set_pad0_fmt [OF assms(1,2), of k n] by auto
  then have sign: "hd ?s \<noteq> CHR ''+''" "hd ?s \<noteq> CHR ''-''"
    using digit_char_not_sign by auto
  have "(2::nat) ^ (bitSize - 1) \<le> 2 ^ bitSize"
    by (intro power_increasing) simp_all
  with assms(3) have "n < 2 ^ bitSize"
    by (rule less_le_trans)
  then have "ParseUint ?s b bitSize = (n, None)"
    using assms(1,2,5) by (intro ParseUint_fmt) simp_all
  then show ?thesis
    using ne sign assms(3) by (simp add: ParseInt_def)
qed


text \<open>The parsers of the assembler on the operand texts of the disassembler.\<close>

lemma TrimSpace_id:
  assumes "s \<noteq> []" "\<not> isSpace (hd s)" "\<not> isSpace (last s)"
  shows "TrimSpace s = s"
proof -
  have "dropWhile isSpace s = s"
    using assms(1,2) by (cases s) simp_all
  moreover obtain ys y where "s = ys @ [y]"
    using assms(1) by (cases s rule: rev_cases) auto
  with assms(3) have "dropWhile isSpace (rev s) = rev s"
    by simp
  ultimately show ?thesis
    by (simp add: TrimSpace_def)
qed

lemma digits_no_space:
  assumes "set s \<subseteq> digit_char ` {..<16}" "c \<in> set s"
  shows "\<not> isSpace c" "c \<noteq> CHR ''+''" "c \<noteq> CHR ''-''"
proof -
  from assms obtain d where "d < 16" "c = digit_char d"
    by auto
  then show "\<not> isSpace c" "c \<noteq> CHR ''+''" "c \<noteq> CHR ''-''"
    using digit_char_not_sign [of d] by simp_all
qed

lemma parseImmediate_hex:
  assumes "n < 2 ^ 31"
  shows "parseImmediate (''0x'' @ pad0 k (fmt_base 16 n)) = int n"
proof -
  let ?s = "pad0 k (fmt_base 16 n)"
  have ne: "?s \<noteq> []"
    by (simp add: pad0_def fmt_base_not_Nil)
  have digs: "set ?s \<subseteq> digit_char ` {..<16}"
    by (rule set_pad0_fmt) simp_all
  have "last (''0x'' @ ?s) = last ?s" "last ?s \<in> set ?s"
    using ne by simp_all
  then have "\<not> isSpace (last (''0x'' @ ?s))"
    using digits_no_space(1) [OF digs] by simp
  then have "TrimSpace (''0x'' @ ?s) = ''0x'' @ ?s"
    by (intro TrimSpace_id) (simp_all add: isSpace_def)
  moreover have "ParseInt ?s 16 32 = (int n, None)"
    using assms by (intro ParseInt_fmt) simp_all
  ultimately show ?thesis
    by (simp add: parseImmediate_def HasPrefix_def)
qed


lemma decimal_digit_chars:
  assumes "c \<in> digit_char ` {..<10}"
  shows "c \<noteq> CHR ''X''" "c \<noteq> CHR ''x''" "c \<noteq> CHR ''B''" "c \<noteq> CHR ''b''"
proof -
  from assms obtain d where "d < 10" "c = digit_char d"
    by auto
  moreover from this have "d = 0 \<or> d = 1 \<or> d = 2 \<or> d = 3 \<or> d = 4 \<or> d = 5 \<or> d = 6 \<or>
      d = 7 \<or> d = 8 \<or> d = 9"
    by arith
  ultimately show "c \<noteq> CHR ''X''" "c \<noteq> CHR ''x''" "c \<noteq> CHR ''B''" "c \<noteq> CHR ''b''"
    by (auto simp add: digit_char_def)
qed

lemma decimal_no_prefix:
  assumes "set s \<subseteq> digit_char ` {..<10}"
  shows "\<not> HasPrefix s ''0X''" "\<not> HasPrefix s ''0x''" "\<not> HasPrefix s ''0B''"
    "\<not> HasPrefix s ''0b''"
proof -
  have "s \<noteq> c # d # t" if "d \<in> {CHR ''X'', CHR ''x'', CHR ''B'', CHR ''b''}" for c d t
    using assms that decimal_digit_chars [of d] by auto
  then show "\<not> HasPrefix s ''0X''" "\<not> HasPrefix s ''0x''" "\<not> HasPrefix s ''0B''"
    "\<not> HasPrefix s ''0b''"
    by (cases s; cases "tl s"; auto simp add: HasPrefix_def)+
qed

lemma parseImmediate_dec:
  assumes "- (2 ^ 63) < k" "k < 2 ^ 63"
  shows "parseImmediate (fmt_d k) = k"
proof -
  let ?n = "nat \<bar>k\<bar>"
  let ?t = "fmt_base 10 ?n"
  have n: "?n < 2 ^ 63"
    using assms by (simp add: nat_less_iff abs_if)
  have t10: "set ?t \<subseteq> digit_char ` {..<10}"
    by (rule set_fmt_base) simp
  then have t16: "set ?t \<subseteq> digit_char ` {..<16}"
    by fastforce
  have tne: "?t \<noteq> []"
    by (rule fmt_base_not_Nil)
  have pad: "pad0 0 ?t = ?t"
    by (simp add: pad0_def)
  have pu: "ParseUint ?t 10 64 = (?n, None)"
    using ParseUint_fmt [of 10 ?n 64 0] n by (simp add: pad)
  have hl: "\<not> isSpace (hd ?t)" "\<not> isSpace (last ?t)" "hd ?t \<noteq> CHR ''+''" "hd ?t \<noteq> CHR ''-''"
    using digits_no_space [OF t16, of "hd ?t"] digits_no_space(1) [OF t16, of "last ?t"] tne
    by simp_all
  show ?thesis
  proof (cases "k < 0")
    case False
    then have s: "fmt_d k = ?t"
      by (simp add: fmt_d_def)
    have "TrimSpace ?t = ?t"
      using tne hl by (intro TrimSpace_id)
    moreover have "ParseInt ?t 10 64 = (k, None)"
      using tne hl pu n False by (simp add: ParseInt_def)
    ultimately show ?thesis
      using decimal_no_prefix [OF t10] by (simp add: s parseImmediate_def Atoi_def)
  next
    case True
    then have s: "fmt_d k = CHR ''-'' # ?t"
      by (simp add: fmt_d_def abs_if)
    have "TrimSpace (CHR ''-'' # ?t) = CHR ''-'' # ?t"
      using tne hl by (intro TrimSpace_id) (simp_all add: isSpace_def)
    moreover have "ParseInt (CHR ''-'' # ?t) 10 64 = (k, None)"
      using pu n True by (simp add: ParseInt_def)
    moreover have "\<not> HasPrefix (CHR ''-'' # ?t) p" if "p \<in> {''0X'', ''0x'', ''0B'', ''0b''}" for p
      using that by (auto simp add: HasPrefix_def)
    ultimately show ?thesis
      by (simp add: s parseImmediate_def Atoi_def)
  qed
qed


lemma nibble_cases:
  assumes "(r :: u16) < 16"
  shows "r \<in> {0, 1, 2, 3, 4, 5, 6, 7, 8, 9, 10, 11, 12, 13, 14, 15}"
proof -
  from assms have "unat r < 16"
    by (simp add: word_less_nat_alt)
  then have "unat r = 0 \<or> unat r = 1 \<or> unat r = 2 \<or> unat r = 3 \<or> unat r = 4 \<or> unat r = 5 \<or>
      unat r = 6 \<or> unat r = 7 \<or> unat r = 8 \<or> unat r = 9 \<or> unat r = 10 \<or> unat r = 11 \<or>
      unat r = 12 \<or> unat r = 13 \<or> unat r = 14 \<or> unat r = 15"
    by arith
  then show ?thesis
    by (auto simp add: word_unat_eq_iff)
qed

lemma parseRegister_fmt:
  assumes "(r :: u16) < 16"
  shows "parseRegister (''R'' @ fmt_X r) = ucast r"
  using nibble_cases [OF assms]
  by (elim insertE emptyE)
    (simp_all add: parseRegister_def fmt_X_def fmt_base.simps digit_char_def ToUpper_def
      upper_char_def HasPrefix_def ParseInt_def ParseUint_def digit_value_def)


text \<open>The fields of a packed code word.\<close>

lemma small_bits:
  assumes "(x :: u16) < 2 ^ k" "bit x n"
  shows "n < k"
proof -
  have "x AND mask k = x"
    using assms(1) by (rule less_mask_eq)
  then have "bit (x AND mask k) n"
    using assms(2) by simp
  then show ?thesis
    by (simp add: bit_simps)
qed

lemma nibble_bits: "(x :: u16) < 16 \<Longrightarrow> bit x n \<Longrightarrow> n < 4"
  using small_bits [of x 4 n] by simp

lemma byte_bits: "(x :: u16) < 256 \<Longrightarrow> bit x n \<Longrightarrow> n < 8"
  using small_bits [of x 8 n] by simp

lemma addr_bits: "(x :: u16) < 4096 \<Longrightarrow> bit x n \<Longrightarrow> n < 12"
  using small_bits [of x 12 n] by simp

lemma masks: "(0xF :: u16) = mask 4" "(0xFF :: u16) = mask 8" "(0xFFF :: u16) = mask 12"
  by (simp_all add: mask_eq_exp_minus_1)

lemma fields_reg:
  assumes "(a :: u16) < 16" "(b :: u16) < 16" "(c :: u16) < 16" "(d :: u16) < 16"
  shows "drop_bit 12 (push_bit 12 a OR push_bit 8 b OR push_bit 4 c OR d) AND 0xF = a"
    and "drop_bit 8 (push_bit 12 a OR push_bit 8 b OR push_bit 4 c OR d) AND 0xF = b"
    and "drop_bit 4 (push_bit 12 a OR push_bit 8 b OR push_bit 4 c OR d) AND 0xF = c"
    and "(push_bit 12 a OR push_bit 8 b OR push_bit 4 c OR d) AND 0xF = d"
  unfolding masks
  using assms
  by - (rule bit_word_eqI, auto simp add: bit_simps dest: nibble_bits)+


text \<open>The round trip, one lemma for each operand shape.\<close>

lemma ucast_nibble: "(r :: u16) < 16 \<Longrightarrow> (ucast (ucast r :: u8) :: u16) = r"
  using nibble_cases [of r] by auto

lemma roundtrip_reg3:
  assumes "m = ''ADD'' \<or> m = ''SUB''" and "rd < 16" "rs < 16" "rt < 16"
  shows "\<exists>w. encodeInstruction a
              \<lparr>Label = l, Opcode = m,
               Operands = [''R'' @ fmt_X rd, ''R'' @ fmt_X rs, ''R'' @ fmt_X rt],
               Address = addr\<rparr> = Inr w \<and>
             d_Mnemonic (disassembleInstruction w addr) = m \<and>
             d_Operands (disassembleInstruction w addr) =
               ''R'' @ fmt_X rd @ '', R'' @ fmt_X rs @ '', R'' @ fmt_X rt"
proof -
  obtain op :: u16 where op: "op = 0x1 \<and> m = ''ADD'' \<or> op = 0x3 \<and> m = ''SUB''"
    using assms(1) by auto
  then have opr: "op < 16" "op \<noteq> 0" "op \<noteq> 0xF"
    by auto
  define w where "w = push_bit 12 op OR push_bit 8 rd OR push_bit 4 rs OR rt"
  have enc: "encodeInstruction a
              \<lparr>Label = l, Opcode = m,
               Operands = [''R'' @ fmt_X rd, ''R'' @ fmt_X rs, ''R'' @ fmt_X rt],
               Address = addr\<rparr> = Inr w"
    using op
    by (elim disjE conjE)
      (simp_all add: w_def encodeInstruction_def Opcodes_def and_then_def index_op_def
        parseRegister_fmt [simplified] ucast_nibble assms(2-4))
  have f: "drop_bit 12 w AND 0xF = op" "drop_bit 8 w AND 0xF = rd"
    "drop_bit 4 w AND 0xF = rs" "w AND 0xF = rt"
    unfolding w_def by (rule fields_reg [OF opr(1) assms(2-4)])+
  have "w \<noteq> 0" "w \<noteq> 0xFFFF"
    using f(1) opr(2,3) by auto
  then have "d_Mnemonic (disassembleInstruction w addr) = m \<and>
             d_Operands (disassembleInstruction w addr) =
               ''R'' @ fmt_X rd @ '', R'' @ fmt_X rs @ '', R'' @ fmt_X rt"
    using op
    by (elim disjE conjE) (simp_all add: disassembleInstruction_def Let_def f)
  with enc show ?thesis
    by blast
qed


lemma fields_imm:
  assumes "(a :: u16) < 16" "(b :: u16) < 16" "(i :: u16) < 256"
  shows "drop_bit 12 (push_bit 12 a OR push_bit 8 b OR i) AND 0xF = a"
    and "drop_bit 8 (push_bit 12 a OR push_bit 8 b OR i) AND 0xF = b"
    and "(push_bit 12 a OR push_bit 8 b OR i) AND 0xFF = i"
  unfolding masks
  using assms
  by - (rule bit_word_eqI, auto simp add: bit_simps dest: nibble_bits byte_bits)+

lemma fields_addr:
  assumes "(a :: u16) < 16" "(x :: u16) < 4096"
  shows "drop_bit 12 (push_bit 12 a OR x) AND 0xF = a"
    and "(push_bit 12 a OR x) AND 0xFFF = x"
  unfolding masks
  using assms
  by - (rule bit_word_eqI, auto simp add: bit_simps dest: nibble_bits addr_bits)+

lemma byte_of_int: "(i :: u16) < 256 \<Longrightarrow> word_of_int (uint i AND 0xFF) = i"
proof -
  assume "i < 256"
  then have "i AND mask 8 = i"
    using less_mask_eq [of i 8] by simp
  moreover have "(word_of_int (uint i AND 0xFF) :: u16) = i AND mask 8"
    by (rule bit_word_eqI) (auto simp add: bit_simps masks(2) [symmetric])
  ultimately show ?thesis
    by simp
qed

lemma parseImmediate_02X: "(i :: u16) < 256 \<Longrightarrow> parseImmediate (''0x'' @ fmt_02X i) = int (unat i)"
proof -
  assume "i < 256"
  then have "unat i < 2 ^ 31"
    by (simp add: word_less_nat_alt)
  then show ?thesis
    unfolding fmt_02X_def by (rule parseImmediate_hex)
qed

lemma parseImmediate_03X: "(x :: u16) < 4096 \<Longrightarrow> parseImmediate (''0x'' @ fmt_03X x) = int (unat x)"
proof -
  assume "x < 4096"
  then have "unat x < 2 ^ 31"
    by (simp add: word_less_nat_alt)
  then show ?thesis
    unfolding fmt_03X_def by (rule parseImmediate_hex)
qed

lemma roundtrip_imm8:
  assumes "m = ''ADDI'' \<or> m = ''LOADI''" and "rd < 16" "i < 256"
  shows "\<exists>w. encodeInstruction a
              \<lparr>Label = l, Opcode = m, Operands = [''R'' @ fmt_X rd, ''0x'' @ fmt_02X i],
               Address = addr\<rparr> = Inr w \<and>
             d_Mnemonic (disassembleInstruction w addr) = m \<and>
             d_Operands (disassembleInstruction w addr) = ''R'' @ fmt_X rd @ '', 0x'' @ fmt_02X i"
proof -
  obtain op :: u16 where op: "op = 0x2 \<and> m = ''ADDI'' \<or> op = 0xC \<and> m = ''LOADI''"
    using assms(1) by auto
  then have opr: "op < 16" "op \<noteq> 0" "op \<noteq> 0xF"
    by auto
  define w where "w = push_bit 12 op OR push_bit 8 rd OR i"
  have enc: "encodeInstruction a
              \<lparr>Label = l, Opcode = m, Operands = [''R'' @ fmt_X rd, ''0x'' @ fmt_02X i],
               Address = addr\<rparr> = Inr w"
    using op
    apply (elim disjE conjE)
     apply (simp_all add: w_def encodeInstruction_def Opcodes_def and_then_def index_op_def
        parseRegister_fmt [simplified] parseImmediate_02X [simplified] ucast_nibble
        assms(2,3))
     apply (simp_all add: byte_of_int assms(3))
    done
  have f: "drop_bit 12 w AND 0xF = op" "drop_bit 8 w AND 0xF = rd" "w AND 0xFF = i"
    unfolding w_def by (rule fields_imm [OF opr(1) assms(2,3)])+
  have "w \<noteq> 0" "w \<noteq> 0xFFFF"
    using f(1) opr(2,3) by auto
  then have "d_Mnemonic (disassembleInstruction w addr) = m \<and>
             d_Operands (disassembleInstruction w addr) = ''R'' @ fmt_X rd @ '', 0x'' @ fmt_02X i"
    using op
    apply (elim disjE conjE)
     apply (simp_all add: disassembleInstruction_def Let_def f(1,2))
     apply (simp_all add: f(3))
    done
  with enc show ?thesis
    by blast
qed


lemma roundtrip_jmp:
  assumes "x < 4096" and "Labels a (''0x'' @ fmt_03X x) = None"
  shows "\<exists>w. encodeInstruction a
              \<lparr>Label = l, Opcode = ''JMP'', Operands = [''0x'' @ fmt_03X x],
               Address = addr\<rparr> = Inr w \<and>
             d_Mnemonic (disassembleInstruction w addr) = ''JMP'' \<and>
             d_Operands (disassembleInstruction w addr) = ''0x'' @ fmt_03X x"
proof -
  define w where "w = push_bit 12 (0xD :: u16) OR x"
  have "x AND mask 12 = x"
    using less_mask_eq [of x 12] assms(1) by simp
  then have x: "x AND 0xFFF = x"
    by (simp add: masks)
  have enc: "encodeInstruction a
              \<lparr>Label = l, Opcode = ''JMP'', Operands = [''0x'' @ fmt_03X x],
               Address = addr\<rparr> = Inr w"
    using assms(2)
    apply (simp add: w_def encodeInstruction_def Opcodes_def and_then_def index_op_def
        parseImmediate_03X [simplified] assms(1))
    apply (simp add: x)
    done
  have op: "(0xD :: u16) < 16"
    by simp
  have f: "drop_bit 12 w AND 0xF = 0xD" "w AND 0xFFF = x"
    unfolding w_def by (rule fields_addr [OF op assms(1)])+
  have "w \<noteq> 0" "w \<noteq> 0xFFFF"
    using f(1) by auto
  then have "d_Mnemonic (disassembleInstruction w addr) = ''JMP'' \<and>
             d_Operands (disassembleInstruction w addr) = ''0x'' @ fmt_03X x"
    apply (simp add: disassembleInstruction_def Let_def f(1))
    apply (simp add: f(2))
    done
  with enc show ?thesis
    by blast
qed


lemma low_byte_signed:
  assumes "- 128 \<le> k" "k \<le> 127"
  shows "sint (ucast ((word_of_int k :: u16) AND 0xFF) :: u8) = k"
proof -
  have "(ucast ((word_of_int k :: u16) AND 0xFF) :: u8) = word_of_int k"
    unfolding masks by (rule bit_word_eqI) (auto simp add: bit_simps)
  then show ?thesis
    using assms by (simp add: sint_sbintrunc' signed_take_bit_int_eq_self)
qed

lemma low_byte_less: "(word_of_int k :: u16) AND 0xFF < 256"
  using and_mask_less_size [of 8 "word_of_int k :: u16"] by (simp add: masks word_size)

lemma roundtrip_branch:
  assumes "m = ''BEQ'' \<or> m = ''BNE''" and "rd < 16" and "- 128 \<le> k" "k \<le> 127"
    and "Labels a (fmt_d k) = None"
    and "\<not> (m = ''BNE'' \<and> rd = 0xF \<and> k = - 1)"
  shows "\<exists>w. encodeInstruction a
              \<lparr>Label = l, Opcode = m, Operands = [''R'' @ fmt_X rd, fmt_d k],
               Address = addr\<rparr> = Inr w \<and>
             d_Mnemonic (disassembleInstruction w addr) = m \<and>
             d_Operands (disassembleInstruction w addr) = ''R'' @ fmt_X rd @ '', '' @ fmt_d k"
proof -
  obtain op :: u16 where op: "op = 0xE \<and> m = ''BEQ'' \<or> op = 0xF \<and> m = ''BNE''"
    using assms(1) by auto
  then have opr: "op < 16" "op \<noteq> 0"
    by auto
  define i where "i = (word_of_int k :: u16) AND 0xFF"
  define w where "w = push_bit 12 op OR push_bit 8 rd OR i"
  have i: "i < 256" "sint (ucast i :: u8) = k"
    unfolding i_def using assms(3,4) by (simp_all only: low_byte_less low_byte_signed)
  have imm: "parseImmediate (fmt_d k) = k"
    using assms(3,4) by (intro parseImmediate_dec) simp_all
  have enc: "encodeInstruction a
              \<lparr>Label = l, Opcode = m, Operands = [''R'' @ fmt_X rd, fmt_d k],
               Address = addr\<rparr> = Inr w"
    using op assms(5)
    by (elim disjE conjE)
      (simp_all add: w_def i_def encodeInstruction_def Opcodes_def and_then_def index_op_def
        parseRegister_fmt [simplified] imm ucast_nibble assms(2))
  have f: "drop_bit 12 w AND 0xF = op" "drop_bit 8 w AND 0xF = rd" "w AND 0xFF = i"
    unfolding w_def by (rule fields_imm [OF opr(1) assms(2) i(1)])+
  have nz: "w \<noteq> 0"
    using f(1) opr(2) by auto
  have nh: "w \<noteq> 0xFFFF"
  proof
    assume h: "w = 0xFFFF"
    with f have "op = 0xF" "rd = 0xF" "i = 0xFF"
      by auto
    with i(2) op have "m = ''BNE'' \<and> rd = 0xF \<and> k = - 1"
      by auto
    with assms(6) show False
      by simp
  qed
  have "d_Mnemonic (disassembleInstruction w addr) = m \<and>
        d_Operands (disassembleInstruction w addr) = ''R'' @ fmt_X rd @ '', '' @ fmt_d k"
    using op nz nh
    apply (elim disjE conjE)
     apply (simp_all add: disassembleInstruction_def Let_def f(1,2))
     apply (simp_all add: f(3) i(2))
    done
  with enc show ?thesis
    by blast
qed

lemma roundtrip_nullary:
  assumes "m = ''NOP'' \<or> m = ''HALT''"
  shows "\<exists>w. encodeInstruction a \<lparr>Label = l, Opcode = m, Operands = ops, Address = addr\<rparr> = Inr w \<and>
             d_Mnemonic (disassembleInstruction w addr) = m \<and>
             d_Operands (disassembleInstruction w addr) = []"
  using assms
  by (elim disjE) (simp_all add: encodeInstruction_def Opcodes_def disassembleInstruction_def)

end
